theory Spec2Isabelle
  imports Complex_Main "HOL-Library.Word"
begin

section \<open>types.ts\<close>

datatype ToolType =
    SELECT | BRUSH | ERASER | HAND | AI_ADD | SMART_EDIT
  | VIDEO_GEN | VIDEO_TRIM | VIDEO_TEXT | VIDEO_AUDIO

section \<open>JavaScript numbers\<close>

text \<open>
  The arithmetic of \<^verbatim>\<open>addImage\<close> and of the import handler is on JavaScript numbers:
  IEEE 754 binary64 values, every operation rounded to the nearest representable value,
  ties to even. A finite double is a rational, so the model computes on \<^typ>\<open>rat\<close> and rounds
  after each operation with \<open>fl\<close>: 53 significant bits, exponent unbounded (overflow,
  subnormals, infinities and NaN are outside the model; canvas and image dimensions keep every
  intermediate value far inside the normal range, and a decoded image has positive
  dimensions, so no division by zero occurs).
\<close>

fun bitlen :: "nat \<Rightarrow> nat" where
  "bitlen n = (if n = 0 then 0 else Suc (bitlen (n div 2)))"

declare bitlen.simps [simp del]

definition pow2 :: "int \<Rightarrow> rat" where
  "pow2 e = (if 0 \<le> e then 2 ^ nat e else 1 / 2 ^ nat (- e))"

definition binade :: "rat \<Rightarrow> int" where
  \<comment> \<open>for \<open>x > 0\<close>: the exponent \<open>e\<close> with \<open>2\<^sup>e \<le> x < 2\<^sup>e\<^sup>+\<^sup>1\<close>\<close>
  "binade x =
     (if 1 \<le> x then int (bitlen (nat \<lfloor>x\<rfloor>)) - 1
      else let j = int (bitlen (nat \<lfloor>1 / x\<rfloor>)) - 1
           in if x * pow2 j = 1 then - j else - j - 1)"

definition round_even :: "rat \<Rightarrow> int" where
  \<comment> \<open>the nearest integer, a tie going to the even neighbour\<close>
  "round_even x =
     (let f = \<lfloor>x\<rfloor>; d = x - of_int f
      in if d < 1 / 2 then f else if 1 / 2 < d then f + 1
         else if even f then f else f + 1)"

definition fl :: "rat \<Rightarrow> rat" where
  "fl x =
     (if x = 0 then 0
      else let a = \<bar>x\<bar>; e = binade a
           in sgn x * of_int (round_even (a * pow2 (52 - e))) * pow2 (e - 52))"

definition js_mul :: "rat \<Rightarrow> rat \<Rightarrow> rat" where
  "js_mul a b = fl (a * b)"

definition js_div :: "rat \<Rightarrow> rat \<Rightarrow> rat" where
  "js_div a b = fl (a / b)"

definition js_sub :: "rat \<Rightarrow> rat \<Rightarrow> rat" where
  "js_sub a b = fl (a - b)"

text \<open>Half a unit in the last place of 1: the relative error of one rounding.\<close>

definition ulp_half :: rat where
  "ulp_half = 1 / 2 ^ 53"

section \<open>The canvas of the browser\<close>

text \<open>
  A pixel is four bytes, as in the \<^verbatim>\<open>Uint8ClampedArray\<close> behind an \<^verbatim>\<open>ImageData\<close>.
  \<open>data\<close> holds one entry per pixel, row by row, so a well-formed \<^verbatim>\<open>ImageData\<close> has
  \<open>width * height\<close> entries.
\<close>

datatype pixel = RGBA (red: "8 word") (green: "8 word") (blue: "8 word") (alpha: "8 word")

definition white :: pixel where
  "white = RGBA 255 255 255 255"

definition transparent_black :: pixel where
  "transparent_black = RGBA 0 0 0 0"

record ImageData =
  width :: nat
  height :: nat
  data :: "pixel list"

definition pixel_at :: "ImageData \<Rightarrow> nat \<Rightarrow> nat \<Rightarrow> pixel" where
  "pixel_at d x y = data d ! (y * width d + x)"

definition blank :: "nat \<Rightarrow> nat \<Rightarrow> ImageData" where
  "blank w h = \<lparr>width = w, height = h, data = replicate (w * h) transparent_black\<rparr>"

text \<open>
  The drawing state of the 2D context, as far as the component touches it.
  \<open>fillStyle\<close> is only ever assigned the literal \<^verbatim>\<open>'#ffffff'\<close>, so it is kept as the
  colour it denotes; \<open>strokeStyle\<close> receives the \<^verbatim>\<open>brushColor\<close> prop (a colour of the
  palette or of the colour input) and stays a string, read by the rasteriser.
\<close>

record Context2D =
  lineCap :: string
  lineJoin :: string
  fillStyle :: pixel
  strokeStyle :: string
  lineWidth :: int
  globalCompositeOperation :: string
  path :: "(int \<times> int) list list"

definition default_context :: Context2D where
  "default_context =
     \<lparr>lineCap = ''butt'', lineJoin = ''miter'', fillStyle = RGBA 0 0 0 255,
      strokeStyle = ''#000000'', lineWidth = 1,
      globalCompositeOperation = ''source-over'', path = []\<rparr>"

record HTMLCanvasElement =
  bitmap :: ImageData
  ctx :: Context2D

text \<open>A new canvas element is 300 by 150, transparent black.\<close>

definition createElement_canvas :: HTMLCanvasElement where
  "createElement_canvas = \<lparr>bitmap = blank 300 150, ctx = default_context\<rparr>"

text \<open>
  Assigning \<^verbatim>\<open>canvas.width\<close> or \<^verbatim>\<open>canvas.height\<close> reallocates the bitmap, clears it to
  transparent black and resets the context to its default state.
\<close>

definition set_width :: "nat \<Rightarrow> HTMLCanvasElement \<Rightarrow> HTMLCanvasElement" where
  "set_width w c = \<lparr>bitmap = blank w (height (bitmap c)), ctx = default_context\<rparr>"

definition set_height :: "nat \<Rightarrow> HTMLCanvasElement \<Rightarrow> HTMLCanvasElement" where
  "set_height h c = \<lparr>bitmap = blank (width (bitmap c)) h, ctx = default_context\<rparr>"

datatype exception = IndexSizeError | TypeError

text \<open>
  \<^verbatim>\<open>context.getImageData(0, 0, canvas.width, canvas.height)\<close>: a copy of the whole bitmap.
  The call throws \<^verbatim>\<open>IndexSizeError\<close> when the requested width or height is zero.
\<close>

definition getImageData :: "HTMLCanvasElement \<Rightarrow> exception + ImageData" where
  "getImageData c =
     (if width (bitmap c) = 0 \<or> height (bitmap c) = 0 then Inl IndexSizeError
      else Inr (bitmap c))"

text \<open>
  \<^verbatim>\<open>context.putImageData(d, 0, 0)\<close>: the pixels of \<open>d\<close> replace those of the bitmap, from
  the top left corner, clipped to the bitmap; nothing is scaled or blended.
\<close>

definition putImageData :: "ImageData \<Rightarrow> HTMLCanvasElement \<Rightarrow> HTMLCanvasElement" where
  "putImageData d c =
     (let b = bitmap c
      in c\<lparr>bitmap := b\<lparr>data :=
            map (\<lambda>i. let x = i mod width b; y = i div width b
                      in if x < width d \<and> y < height d then pixel_at d x y else data b ! i)
                [0..<width b * height b]\<rparr>\<rparr>)"

text \<open>
  What the browser computes and the repository does not: blending a translucent source
  pixel over a destination pixel, parsing and rendering a CSS filter, rasterising the
  current path with the current stroke style, decoding an image URL, and resampling an
  image into a destination rectangle. They are parameters of the model.
\<close>

record browser =
  blend :: "pixel \<Rightarrow> pixel \<Rightarrow> pixel"
  css_filter :: "string \<Rightarrow> (ImageData \<Rightarrow> ImageData) option"
  stroke_path :: "HTMLCanvasElement \<Rightarrow> pixel list"
  decode_image :: "string \<Rightarrow> ImageData option"
  draw_scaled :: "ImageData \<Rightarrow> rat \<times> rat \<times> rat \<times> rat \<Rightarrow> HTMLCanvasElement \<Rightarrow> pixel list"

text \<open>
  Compositing is always \<^verbatim>\<open>source-over\<close> with global alpha 1: an opaque source pixel
  replaces the destination, a fully transparent one leaves it.
\<close>

definition src_over :: "browser \<Rightarrow> pixel \<Rightarrow> pixel \<Rightarrow> pixel" where
  "src_over B s d = (if alpha s = 255 then s else if alpha s = 0 then d else blend B s d)"

text \<open>\<^verbatim>\<open>context.drawImage(src, 0, 0)\<close> for a source canvas: unscaled, clipped, composited.\<close>

definition drawImage :: "browser \<Rightarrow> ImageData \<Rightarrow> HTMLCanvasElement \<Rightarrow> HTMLCanvasElement" where
  "drawImage B src c =
     (let b = bitmap c
      in c\<lparr>bitmap := b\<lparr>data :=
            map (\<lambda>i. let x = i mod width b; y = i div width b
                      in if x < width src \<and> y < height src
                         then src_over B (pixel_at src x y) (data b ! i) else data b ! i)
                [0..<width b * height b]\<rparr>\<rparr>)"

text \<open>\<^verbatim>\<open>context.fillRect(0, 0, canvas.width, canvas.height)\<close>: the fill colour over every pixel.\<close>

definition fillRect :: "browser \<Rightarrow> HTMLCanvasElement \<Rightarrow> HTMLCanvasElement" where
  "fillRect B c =
     (let b = bitmap c
      in c\<lparr>bitmap := b\<lparr>data := map (src_over B (fillStyle (ctx c))) (data b)\<rparr>\<rparr>)"

text \<open>
  \<^verbatim>\<open>context.filter = f\<close> is ignored when \<open>f\<close> does not parse as a filter, so the attribute
  keeps its value. The component resets it to \<^verbatim>\<open>'none'\<close> after every use and a fresh context
  starts with \<^verbatim>\<open>'none'\<close>: an unparsable string renders as \<^verbatim>\<open>'none'\<close> does, unfiltered.
\<close>

definition render_filter :: "browser \<Rightarrow> string \<Rightarrow> ImageData \<Rightarrow> ImageData" where
  "render_filter B f src =
     (if f = ''none'' then src
      else case css_filter B f of None \<Rightarrow> src | Some F \<Rightarrow> F src)"

text \<open>The current path is a list of subpaths, each a list of points.\<close>

definition beginPath :: "HTMLCanvasElement \<Rightarrow> HTMLCanvasElement" where
  "beginPath c = c\<lparr>ctx := (ctx c)\<lparr>path := []\<rparr>\<rparr>"

definition moveTo :: "int \<Rightarrow> int \<Rightarrow> HTMLCanvasElement \<Rightarrow> HTMLCanvasElement" where
  "moveTo x y c = c\<lparr>ctx := (ctx c)\<lparr>path := path (ctx c) @ [[(x, y)]]\<rparr>\<rparr>"

definition lineTo :: "int \<Rightarrow> int \<Rightarrow> HTMLCanvasElement \<Rightarrow> HTMLCanvasElement" where
  "lineTo x y c =
     (let ps = path (ctx c)
      in c\<lparr>ctx := (ctx c)\<lparr>path :=
            (if ps = [] then [[(x, y)]] else butlast ps @ [last ps @ [(x, y)]])\<rparr>\<rparr>)"

definition closePath :: "HTMLCanvasElement \<Rightarrow> HTMLCanvasElement" where
  "closePath c =
     (let ps = path (ctx c)
      in if ps = [] \<or> last ps = [] then c
         else c\<lparr>ctx := (ctx c)\<lparr>path :=
                butlast ps @ [last ps @ [hd (last ps)], [hd (last ps)]]\<rparr>\<rparr>)"

definition stroke :: "browser \<Rightarrow> HTMLCanvasElement \<Rightarrow> HTMLCanvasElement" where
  "stroke B c = c\<lparr>bitmap := (bitmap c)\<lparr>data := stroke_path B c\<rparr>\<rparr>"

text \<open>\<^verbatim>\<open>context.lineWidth = v\<close> is ignored unless \<open>v\<close> is positive.\<close>

definition set_lineWidth :: "int \<Rightarrow> HTMLCanvasElement \<Rightarrow> HTMLCanvasElement" where
  "set_lineWidth v c = (if 0 < v then c\<lparr>ctx := (ctx c)\<lparr>lineWidth := v\<rparr>\<rparr> else c)"

section \<open>components/CanvasEditor.tsx\<close>

text \<open>
  The component keeps two pieces of React state, \<^verbatim>\<open>context\<close> and \<^verbatim>\<open>isDrawing\<close>, and three
  refs: the canvas element and the two history stacks. \<open>messages\<close> records the calls of the
  \<^verbatim>\<open>onAssistantMessage\<close> prop, oldest first.

  A handler does not read React state: it reads the constants of the render that created
  it. Every function below therefore takes the values its closure captured (\<open>context\<close>,
  \<open>isDrawing\<close>, and the props \<open>activeTool\<close>, \<open>brushSize\<close>, \<open>brushColor\<close>) as arguments,
  in the order of the source's dependency lists, and the state of the \<^verbatim>\<open>useState\<close> hooks is
  a pair of fields that only \<^verbatim>\<open>setContext\<close> and \<^verbatim>\<open>setIsDrawing\<close> write.
\<close>

datatype context_ref = Null | Context

datatype js_value = Undefined | Boolean bool

record MouseEvent =
  offsetX :: int
  offsetY :: int

record Editor =
  canvasRef :: "HTMLCanvasElement option"
  useState_context :: context_ref
  useState_isDrawing :: bool
  historyStack :: "ImageData list"
  redoStack :: "ImageData list"
  messages :: "string list"

definition MAX_HISTORY :: nat where
  "MAX_HISTORY = 20"

definition onAssistantMessage :: "string \<Rightarrow> Editor \<Rightarrow> Editor" where
  "onAssistantMessage msg s = s\<lparr>messages := messages s @ [msg]\<rparr>"

text \<open>\<^verbatim>\<open>Array.prototype.pop\<close>: the last element, or \<^verbatim>\<open>undefined\<close> on an empty array.\<close>

definition pop :: "'a list \<Rightarrow> 'a option \<times> 'a list" where
  "pop xs = (if xs = [] then (None, []) else (Some (last xs), butlast xs))"

text \<open>\<^verbatim>\<open>Array.prototype.shift\<close> removes the first element.\<close>

definition shift :: "'a list \<Rightarrow> 'a list" where
  "shift xs = tl xs"

text \<open>
  The guard that opens a handler, \<^verbatim>\<open>if (... || !context || !canvasRef.current) return;\<close>, is
  the \<open>None\<close> branch and the \<open>if\<close> of its definition; a bare \<^verbatim>\<open>return\<close> yields
  \<^verbatim>\<open>undefined\<close>. The four handlers of the imperative handle are declared \<^verbatim>\<open>=> void\<close>;
  their value is kept because callers could read it.
\<close>

definition saveState :: "context_ref \<Rightarrow> Editor \<Rightarrow> exception + Editor" where
  "saveState context s =
     (case canvasRef s of
        None \<Rightarrow> Inr s
      | Some canvas \<Rightarrow>
          if context = Null then Inr s
          else (case getImageData canvas of
                  Inl e \<Rightarrow> Inl e
                | Inr d \<Rightarrow>
                    let pushed = historyStack s @ [d];
                        capped = (if length pushed > MAX_HISTORY then shift pushed else pushed)
                    in Inr (s\<lparr>historyStack := capped, redoStack := []\<rparr>)))"

definition undo :: "context_ref \<Rightarrow> Editor \<Rightarrow> exception + js_value \<times> Editor" where
  "undo context s =
     (case canvasRef s of
        None \<Rightarrow> Inr (Undefined, s)
      | Some canvas \<Rightarrow>
          if historyStack s = [] \<or> context = Null then Inr (Undefined, s)
          else (case getImageData canvas of
                  Inl e \<Rightarrow> Inl e
                | Inr currentData \<Rightarrow>
                    let s1 = s\<lparr>redoStack := redoStack s @ [currentData]\<rparr>;
                        (previousData, rest) = pop (historyStack s1);
                        s2 = s1\<lparr>historyStack := rest\<rparr>
                    in (case previousData of
                          None \<Rightarrow> Inr (Undefined, s2)
                        | Some d \<Rightarrow>
                            Inr (Undefined,
                                 onAssistantMessage ''Undid last action.''
                                   (s2\<lparr>canvasRef := Some (putImageData d canvas)\<rparr>)))))"

definition redo :: "context_ref \<Rightarrow> Editor \<Rightarrow> exception + js_value \<times> Editor" where
  "redo context s =
     (case canvasRef s of
        None \<Rightarrow> Inr (Undefined, s)
      | Some canvas \<Rightarrow>
          if redoStack s = [] \<or> context = Null then Inr (Undefined, s)
          else (case getImageData canvas of
                  Inl e \<Rightarrow> Inl e
                | Inr currentData \<Rightarrow>
                    let s1 = s\<lparr>historyStack := historyStack s @ [currentData]\<rparr>;
                        (nextData, rest) = pop (redoStack s1);
                        s2 = s1\<lparr>redoStack := rest\<rparr>
                    in (case nextData of
                          None \<Rightarrow> Inr (Undefined, s2)
                        | Some d \<Rightarrow>
                            Inr (Undefined,
                                 onAssistantMessage ''Redid action.''
                                   (s2\<lparr>canvasRef := Some (putImageData d canvas)\<rparr>)))))"

text \<open>
  \<^verbatim>\<open>applyFilter\<close> copies the canvas to a temporary canvas of the same size, assigns the
  filter, draws the copy back through it and resets the filter.
\<close>

definition applyFilter ::
  "browser \<Rightarrow> context_ref \<Rightarrow> string \<Rightarrow> Editor \<Rightarrow> exception + js_value \<times> Editor" where
  "applyFilter B context filter_str s =
     (if context = Null \<or> canvasRef s = None then Inr (Undefined, s)
      else case saveState context s of
             Inl e \<Rightarrow> Inl e
           | Inr s1 \<Rightarrow>
               (case canvasRef s1 of
                  None \<Rightarrow> Inr (Undefined, s1)
                | Some canvas \<Rightarrow>
                    let tempCanvas =
                          drawImage B (bitmap canvas)
                            (set_height (height (bitmap canvas))
                               (set_width (width (bitmap canvas)) createElement_canvas));
                        filtered = render_filter B filter_str (bitmap tempCanvas)
                    in Inr (Undefined,
                            onAssistantMessage ''Filter applied!''
                              (s1\<lparr>canvasRef := Some (drawImage B filtered canvas)\<rparr>))))"

text \<open>
  \<^verbatim>\<open>addImage\<close> draws in the \<^verbatim>\<open>onload\<close> callback of an image. The destination rectangle
  \<open>(x, y, w, h)\<close> is computed there from the canvas size at that moment.
\<close>

definition addImage_placement :: "nat \<Rightarrow> nat \<Rightarrow> nat \<Rightarrow> nat \<Rightarrow> rat \<times> rat \<times> rat \<times> rat" where
  "addImage_placement cw ch iw ih =
     (let scale = min (js_div (js_mul (of_nat cw) (1 / 2)) (of_nat iw))
                      (js_div (js_mul (of_nat ch) (1 / 2)) (of_nat ih));
          w = js_mul (of_nat iw) scale;
          h = js_mul (of_nat ih) scale;
          x = js_div (js_sub (of_nat cw) w) 2;
          y = js_div (js_sub (of_nat ch) h) 2
      in (x, y, w, h))"

definition addImage_onload :: "browser \<Rightarrow> ImageData \<Rightarrow> Editor \<Rightarrow> exception + Editor" where
  "addImage_onload B img s =
     (case canvasRef s of
        None \<Rightarrow> Inl TypeError
      | Some canvas \<Rightarrow>
          let r = addImage_placement (width (bitmap canvas)) (height (bitmap canvas))
                    (width img) (height img)
          in Inr (onAssistantMessage ''Element added to canvas.''
                    (s\<lparr>canvasRef :=
                         Some (canvas\<lparr>bitmap := (bitmap canvas)\<lparr>data := draw_scaled B img r canvas\<rparr>\<rparr>)\<rparr>)))"

text \<open>
  The image loads after \<^verbatim>\<open>addImage\<close> has returned. When the URL does not decode, \<^verbatim>\<open>onload\<close>
  never fires and no \<^verbatim>\<open>onerror\<close> handler is installed. The model lets the load finish at
  once; \<open>addImage_onload\<close> is also an event of its own below.
\<close>

definition addImage ::
  "browser \<Rightarrow> context_ref \<Rightarrow> string \<Rightarrow> Editor \<Rightarrow> exception + js_value \<times> Editor" where
  "addImage B context dataUrl s =
     (if context = Null \<or> canvasRef s = None then Inr (Undefined, s)
      else case saveState context s of
             Inl e \<Rightarrow> Inl e
           | Inr s1 \<Rightarrow>
               (case decode_image B dataUrl of
                  None \<Rightarrow> Inr (Undefined, s1)
                | Some img \<Rightarrow>
                    (case addImage_onload B img s1 of
                       Inl e \<Rightarrow> Inr (Undefined, s1)
                     | Inr s2 \<Rightarrow> Inr (Undefined, s2))))"

text \<open>
  The effect that initialises the canvas, and the resize handler it installs. Both are
  parameterised by the \<^verbatim>\<open>context\<close> of their closure like every other handler;
  \<open>offsetWidth\<close> and \<open>offsetHeight\<close> are the layout size of the element at that moment.
  \<^verbatim>\<open>setContext(ctx)\<close> writes the hook's state; it does not change the closure's constant.
\<close>

definition init_effect ::
  "browser \<Rightarrow> context_ref \<Rightarrow> nat \<Rightarrow> nat \<Rightarrow> Editor \<Rightarrow> exception + Editor" where
  "init_effect B context offsetWidth offsetHeight s =
     (case canvasRef s of
        None \<Rightarrow> Inr s
      | Some canvas0 \<Rightarrow>
          let canvas1 = set_height offsetHeight (set_width offsetWidth canvas0);
              canvas2 = canvas1\<lparr>ctx := (ctx canvas1)\<lparr>lineCap := ''round'', lineJoin := ''round''\<rparr>\<rparr>;
              s1 = s\<lparr>canvasRef := Some canvas2, useState_context := Context\<rparr>;
              canvas3 = fillRect B (canvas2\<lparr>ctx := (ctx canvas2)\<lparr>fillStyle := white\<rparr>\<rparr>)
          in saveState context (s1\<lparr>canvasRef := Some canvas3\<rparr>))"

definition handleResize ::
  "context_ref \<Rightarrow> nat \<Rightarrow> nat \<Rightarrow> Editor \<Rightarrow> exception + Editor" where
  "handleResize context offsetWidth offsetHeight s =
     (case canvasRef s of
        None \<Rightarrow> Inr s
      | Some canvas \<Rightarrow>
          if context = Null then Inr s
          else (case getImageData canvas of
                  Inl e \<Rightarrow> Inl e
                | Inr currentData \<Rightarrow>
                    Inr (s\<lparr>canvasRef :=
                           Some (putImageData currentData
                                   (set_height offsetHeight (set_width offsetWidth canvas)))\<rparr>)))"

text \<open>The import handler, from the \<^verbatim>\<open>onload\<close> of the decoded file on.\<close>

definition import_placement :: "nat \<Rightarrow> nat \<Rightarrow> nat \<Rightarrow> nat \<Rightarrow> rat \<times> rat \<times> rat \<times> rat" where
  "import_placement cw ch iw ih =
     (let aspect = js_div (of_nat iw) (of_nat ih);
          drawWidth0 = of_nat cw;
          drawHeight0 = js_div drawWidth0 aspect;
          drawHeight = (if of_nat ch < drawHeight0 then of_nat ch else drawHeight0);
          drawWidth = (if of_nat ch < drawHeight0 then js_mul drawHeight aspect else drawWidth0);
          x = js_div (js_sub (of_nat cw) drawWidth) 2;
          y = js_div (js_sub (of_nat ch) drawHeight) 2
      in (x, y, drawWidth, drawHeight))"

definition handleImport_onload ::
  "browser \<Rightarrow> context_ref \<Rightarrow> ImageData \<Rightarrow> Editor \<Rightarrow> exception + Editor" where
  "handleImport_onload B context img s =
     (case canvasRef s of
        None \<Rightarrow> Inr s
      | Some canvas0 \<Rightarrow>
          if context = Null then Inr s
          else (case saveState context s of
                  Inl e \<Rightarrow> Inl e
                | Inr s1 \<Rightarrow>
                   let r = import_placement (width (bitmap canvas0)) (height (bitmap canvas0))
                             (width img) (height img);
                       canvas1 = fillRect B (canvas0\<lparr>ctx := (ctx canvas0)\<lparr>fillStyle := white\<rparr>\<rparr>);
                       canvas2 = canvas1\<lparr>bitmap := (bitmap canvas1)\<lparr>data := draw_scaled B img r canvas1\<rparr>\<rparr>
                   in Inr (onAssistantMessage ''Image loaded! Ready to edit.''
                             (s1\<lparr>canvasRef := Some canvas2\<rparr>))))"

text \<open>
  The stroke engine. The context object outlives the guard on \<^verbatim>\<open>canvasRef\<close>; its drawing
  state is kept with the canvas, so a call on the context updates the canvas when there is
  one.
\<close>

definition on_canvas :: "(HTMLCanvasElement \<Rightarrow> HTMLCanvasElement) \<Rightarrow> Editor \<Rightarrow> Editor" where
  "on_canvas f s = (case canvasRef s of None \<Rightarrow> s | Some c \<Rightarrow> s\<lparr>canvasRef := Some (f c)\<rparr>)"

definition pointer_ignored :: "ToolType \<Rightarrow> bool" where
  "pointer_ignored activeTool =
     (activeTool = SELECT \<or> activeTool = HAND \<or> activeTool = AI_ADD \<or> activeTool = SMART_EDIT)"

definition startDrawing ::
  "context_ref \<Rightarrow> ToolType \<Rightarrow> MouseEvent \<Rightarrow> Editor \<Rightarrow> exception + Editor" where
  "startDrawing context activeTool e s =
     (if context = Null then Inr s
      else if pointer_ignored activeTool then Inr s
      else case saveState context s of
             Inl ex \<Rightarrow> Inl ex
           | Inr s1 \<Rightarrow>
               Inr ((on_canvas (moveTo (offsetX e) (offsetY e)) (on_canvas beginPath s1))
                      \<lparr>useState_isDrawing := True\<rparr>))"

definition draw ::
  "browser \<Rightarrow> bool \<Rightarrow> context_ref \<Rightarrow> int \<Rightarrow> string \<Rightarrow> ToolType \<Rightarrow> MouseEvent \<Rightarrow> Editor
     \<Rightarrow> exception + Editor" where
  "draw B isDrawing context brushSize brushColor activeTool e s =
     (if \<not> isDrawing \<or> context = Null then Inr s
      else if pointer_ignored activeTool then Inr s
      else
        let style = (\<lambda>c. c\<lparr>ctx := (ctx c)\<lparr>strokeStyle :=
                       (if activeTool = ERASER then ''#ffffff'' else brushColor)\<rparr>\<rparr>);
            mode = (\<lambda>c. if activeTool = ERASER
                         then c\<lparr>ctx := (ctx c)\<lparr>strokeStyle := ''#ffffff''\<rparr>\<rparr>
                         else c\<lparr>ctx := (ctx c)\<lparr>globalCompositeOperation := ''source-over''\<rparr>\<rparr>)
        in Inr (on_canvas
                  (\<lambda>c. stroke B (lineTo (offsetX e) (offsetY e)
                                     (mode (set_lineWidth brushSize (style c))))) s))"

definition stopDrawing :: "context_ref \<Rightarrow> bool \<Rightarrow> Editor \<Rightarrow> exception + Editor" where
  "stopDrawing context isDrawing s =
     (if context = Null \<or> \<not> isDrawing then Inr s
      else Inr ((on_canvas closePath s)\<lparr>useState_isDrawing := False\<rparr>))"

section \<open>Events of a session\<close>

text \<open>
  \<^verbatim>\<open>useState(null)\<close>: the \<^verbatim>\<open>context\<close> of the first render. The initialising effect has an
  empty dependency list, so React runs the closure of the first render, once; the
  \<^verbatim>\<open>saveState\<close> it calls and the \<^verbatim>\<open>handleResize\<close> it installs are those of that render too.
  Every other handler is recreated when \<^verbatim>\<open>context\<close> or \<^verbatim>\<open>isDrawing\<close> changes, so it runs
  with the current state of the hooks.
\<close>

definition first_render_context :: context_ref where
  "first_render_context = Null"

datatype event =
    Mount nat nat
  | Resize nat nat
  | Undo
  | Redo
  | ApplyFilter string
  | AddImage string
  | ImageLoaded ImageData
  | Import ImageData
  | MouseDown ToolType MouseEvent
  | MouseMove int string ToolType MouseEvent
  | MouseUp

text \<open>An exception leaves the handler; what the handler had written before stays written.
  Every handler here throws, if at all, before its first write.\<close>

definition keep :: "Editor \<Rightarrow> exception + Editor \<Rightarrow> Editor" where
  "keep s r = (case r of Inl e \<Rightarrow> s | Inr s' \<Rightarrow> s')"

definition returned :: "exception + js_value \<times> Editor \<Rightarrow> exception + Editor" where
  "returned r = (case r of Inl e \<Rightarrow> Inl e | Inr (v, s') \<Rightarrow> Inr s')"

fun fire :: "browser \<Rightarrow> event \<Rightarrow> Editor \<Rightarrow> Editor" where
  "fire B (Mount w h) s = keep s (init_effect B first_render_context w h s)"
| "fire B (Resize w h) s = keep s (handleResize first_render_context w h s)"
| "fire B Undo s = keep s (returned (undo (useState_context s) s))"
| "fire B Redo s = keep s (returned (redo (useState_context s) s))"
| "fire B (ApplyFilter f) s = keep s (returned (applyFilter B (useState_context s) f s))"
| "fire B (AddImage url) s = keep s (returned (addImage B (useState_context s) url s))"
| "fire B (ImageLoaded img) s = keep s (addImage_onload B img s)"
| "fire B (Import img) s = keep s (handleImport_onload B (useState_context s) img s)"
| "fire B (MouseDown tool e) s = keep s (startDrawing (useState_context s) tool e s)"
| "fire B (MouseMove brushSize brushColor tool e) s =
     keep s (draw B (useState_isDrawing s) (useState_context s) brushSize brushColor tool e s)"
| "fire B MouseUp s = keep s (stopDrawing (useState_context s) (useState_isDrawing s) s)"

definition run :: "browser \<Rightarrow> event list \<Rightarrow> Editor \<Rightarrow> Editor" where
  "run B evs s = foldl (\<lambda>s e. fire B e s) s evs"

text \<open>The component once React has created the canvas element, before any effect has run.\<close>

definition initial_editor :: Editor where
  "initial_editor =
     \<lparr>canvasRef = Some createElement_canvas, useState_context = first_render_context,
      useState_isDrawing = False, historyStack = [], redoStack = [], messages = []\<rparr>"

section \<open>Scenarios, invariants and test data\<close>

text \<open>
  \<open>repaint p\<close> stands for any mutation of the surface that keeps its size: the pixels
  become \<open>p\<close>. \<open>checkpoints\<close> is a run of user actions, each taking its checkpoint when the
  surface shows the next element of the list.
\<close>

definition repaint :: "pixel list \<Rightarrow> HTMLCanvasElement \<Rightarrow> HTMLCanvasElement" where
  "repaint p c = c\<lparr>bitmap := (bitmap c)\<lparr>data := p\<rparr>\<rparr>"

fun checkpoints :: "context_ref \<Rightarrow> pixel list list \<Rightarrow> Editor \<Rightarrow> exception + Editor" where
  "checkpoints context [] s = Inr s"
| "checkpoints context (p # ps) s =
     (case saveState context (on_canvas (repaint p) s) of
        Inl e \<Rightarrow> Inl e
      | Inr s' \<Rightarrow> checkpoints context ps s')"

definition wf_canvas :: "HTMLCanvasElement \<Rightarrow> bool" where
  "wf_canvas c =
     (0 < width (bitmap c) \<and> 0 < height (bitmap c)
      \<and> length (data (bitmap c)) = width (bitmap c) * height (bitmap c))"

definition opaque :: "HTMLCanvasElement \<Rightarrow> bool" where
  "opaque c = list_all (\<lambda>p. alpha p = 255) (data (bitmap c))"

definition pixels :: "Editor \<Rightarrow> pixel list" where
  "pixels s = (case canvasRef s of None \<Rightarrow> [] | Some c \<Rightarrow> data (bitmap c))"

definition red_pixel :: pixel where
  "red_pixel = RGBA 255 0 0 255"

definition canvas_of :: "nat \<Rightarrow> nat \<Rightarrow> pixel list \<Rightarrow> HTMLCanvasElement" where
  "canvas_of w h p = \<lparr>bitmap = \<lparr>width = w, height = h, data = p\<rparr>, ctx = default_context\<rparr>"

definition editor_of :: "HTMLCanvasElement \<Rightarrow> Editor" where
  "editor_of c =
     \<lparr>canvasRef = Some c, useState_context = Context, useState_isDrawing = False,
      historyStack = [], redoStack = [], messages = []\<rparr>"

text \<open>A stand-in browser for the concrete runs: it knows no filter, decodes nothing and
  draws nothing.\<close>

definition idle_browser :: browser where
  "idle_browser =
     \<lparr>blend = (\<lambda>s d. s), css_filter = (\<lambda>f. None), stroke_path = (\<lambda>c. data (bitmap c)),
      decode_image = (\<lambda>url. None), draw_scaled = (\<lambda>img r c. data (bitmap c))\<rparr>"

text \<open>The invariant of the two stacks: together they never hold more than the cap.\<close>

definition within_cap :: "Editor \<Rightarrow> bool" where
  "within_cap s = (length (historyStack s) + length (redoStack s) \<le> MAX_HISTORY)"

text \<open>
  The size of the canvas, and the invariant that lets \<open>undo\<close> and \<open>redo\<close> read the canvas:
  a stack holds an entry only when the canvas is not empty.
\<close>

definition canvas_size :: "Editor \<Rightarrow> (nat \<times> nat) option" where
  "canvas_size s =
     (case canvasRef s of None \<Rightarrow> None
      | Some c \<Rightarrow> Some (width (bitmap c), height (bitmap c)))"

definition restorable :: "Editor \<Rightarrow> bool" where
  "restorable s =
     (historyStack s = [] \<and> redoStack s = []
      \<or> (\<exists>w h. canvas_size s = Some (w, h) \<and> 0 < w \<and> 0 < h))"

fun is_Mount :: "event \<Rightarrow> bool" where
  "is_Mount (Mount w h) = True"
| "is_Mount e = False"

section \<open>Snapshots are restored exactly\<close>

lemma getImageData_ok:
  "0 < width (bitmap c) \<Longrightarrow> 0 < height (bitmap c) \<Longrightarrow> getImageData c = Inr (bitmap c)"
  by (simp add: getImageData_def)

lemma index_in_row:
  fixes w h i :: nat
  assumes "i < w * h"
  shows "i mod w < w" and "i div w < h" and "i div w * w + i mod w = i"
proof -
  from assms have "0 < w" by (cases w) simp_all
  then show "i mod w < w" by simp
  from assms show "i div w < h"
    by (simp add: less_mult_imp_div_less mult.commute)
  show "i div w * w + i mod w = i" by simp
qed

lemma paste_all:
  assumes "length xs = w * h"
  shows "map (\<lambda>i. if i mod w < w \<and> i div w < h then xs ! (i div w * w + i mod w) else ys ! i)
           [0..<w * h] = xs"
proof -
  have "map (\<lambda>i. if i mod w < w \<and> i div w < h then xs ! (i div w * w + i mod w) else ys ! i)
           [0..<w * h] = map (\<lambda>i. xs ! i) [0..<w * h]"
    by (rule map_cong) (simp_all add: index_in_row)
  also have "\<dots> = xs" using assms by (metis map_nth)
  finally show ?thesis .
qed

lemma putImageData_same_size:
  assumes w: "width d = width (bitmap c)" and h: "height d = height (bitmap c)"
    and len: "length (data d) = width d * height d"
  shows "putImageData d c = c\<lparr>bitmap := d\<rparr>"
proof -
  let ?w = "width (bitmap c)" and ?h = "height (bitmap c)"
  have "map (\<lambda>i. if i mod ?w < ?w \<and> i div ?w < ?h
                  then data d ! (i div ?w * ?w + i mod ?w)
                  else data (bitmap c) ! i) [0..<?w * ?h] = data d"
    using len unfolding w h by (rule paste_all)
  then have "data (bitmap (putImageData d c)) = data d"
    unfolding putImageData_def pixel_at_def Let_def w h by simp
  moreover have "width (bitmap (putImageData d c)) = width d"
    and "height (bitmap (putImageData d c)) = height d"
    by (simp_all add: putImageData_def Let_def w h)
  ultimately have "bitmap (putImageData d c) = d"
    by simp
  moreover have "ctx (putImageData d c) = ctx c"
    by (simp add: putImageData_def Let_def)
  ultimately show ?thesis
    by (cases c) (simp add: putImageData_def Let_def)
qed


lemma saveState_ok:
  assumes "canvasRef s = Some c" "0 < width (bitmap c)" "0 < height (bitmap c)"
  shows "saveState Context s =
           Inr (s\<lparr>historyStack :=
                    (if MAX_HISTORY < length (historyStack s) + 1
                     then tl (historyStack s @ [bitmap c]) else historyStack s @ [bitmap c]),
                  redoStack := []\<rparr>)"
  using assms by (simp add: saveState_def getImageData_def shift_def)

lemma undo_ok:
  assumes "canvasRef s = Some c" "0 < width (bitmap c)" "0 < height (bitmap c)"
    and "historyStack s \<noteq> []"
  shows "undo Context s =
           Inr (Undefined,
                onAssistantMessage ''Undid last action.''
                  (s\<lparr>redoStack := redoStack s @ [bitmap c],
                     historyStack := butlast (historyStack s),
                     canvasRef := Some (putImageData (last (historyStack s)) c)\<rparr>))"
  using assms by (simp add: undo_def getImageData_def pop_def)

lemma redo_ok:
  assumes "canvasRef s = Some c" "0 < width (bitmap c)" "0 < height (bitmap c)"
    and "redoStack s \<noteq> []"
  shows "redo Context s =
           Inr (Undefined,
                onAssistantMessage ''Redid action.''
                  (s\<lparr>historyStack := historyStack s @ [bitmap c],
                     redoStack := butlast (redoStack s),
                     canvasRef := Some (putImageData (last (redoStack s)) c)\<rparr>))"
  using assms by (simp add: redo_def getImageData_def pop_def)

lemma last_capped:
  "last (if MAX_HISTORY < length hs + 1 then tl (hs @ [d]) else hs @ [d]) = d"
  by (cases hs) (simp_all add: MAX_HISTORY_def)

lemma capped_nonempty:
  "(if MAX_HISTORY < length hs + 1 then tl (hs @ [d]) else hs @ [d]) \<noteq> []"
  by (cases hs) (simp_all add: MAX_HISTORY_def)

section \<open>History\<close>

text \<open>
  C1. Undo and redo are a lossless round trip. The surface \<open>c\<close> is checkpointed, then
  mutated into any surface \<open>c1\<close> of the same size; \<open>undo\<close> brings back the pixels of \<open>c\<close>,
  and \<open>redo\<close> right after it the pixels of \<open>c1\<close>, with the undo stack as the checkpoint
  left it and the redo stack empty again.
\<close>

theorem undo_redo_round_trip:
  assumes c: "canvasRef s = Some c" and wf: "wf_canvas c"
    and wf1: "wf_canvas c1"
    and w1: "width (bitmap c1) = width (bitmap c)" and h1: "height (bitmap c1) = height (bitmap c)"
  shows "\<exists>s1 s3 s4.
           saveState Context s = Inr s1
         \<and> undo Context (s1\<lparr>canvasRef := Some c1\<rparr>) = Inr (Undefined, s3)
         \<and> pixels s3 = data (bitmap c)
         \<and> redo Context s3 = Inr (Undefined, s4)
         \<and> pixels s4 = data (bitmap c1)
         \<and> historyStack s4 = historyStack s1 \<and> redoStack s4 = []"
proof -
  define hs where "hs = (if MAX_HISTORY < length (historyStack s) + 1
             then tl (historyStack s @ [bitmap c]) else historyStack s @ [bitmap c])"
  have hs: "hs \<noteq> []" "last hs = bitmap c"
    unfolding hs_def by (rule capped_nonempty, rule last_capped)
  define s1 where "s1 = s\<lparr>historyStack := hs, redoStack := []\<rparr>"
  define s2 where "s2 = s1\<lparr>canvasRef := Some c1\<rparr>"
  define s3 where "s3 = onAssistantMessage ''Undid last action.''
               (s2\<lparr>redoStack := [bitmap c1], historyStack := butlast hs,
                    canvasRef := Some (c1\<lparr>bitmap := bitmap c\<rparr>)\<rparr>)"
  define s4 where "s4 = onAssistantMessage ''Redid action.''
               (s3\<lparr>historyStack := butlast hs @ [bitmap c], redoStack := [],
                    canvasRef := Some c1\<rparr>)"
  from wf have pos: "0 < width (bitmap c)" "0 < height (bitmap c)"
    and len: "length (data (bitmap c)) = width (bitmap c) * height (bitmap c)"
    by (simp_all add: wf_canvas_def)
  from wf1 have pos1: "0 < width (bitmap c1)" "0 < height (bitmap c1)"
    and len1: "length (data (bitmap c1)) = width (bitmap c1) * height (bitmap c1)"
    by (simp_all add: wf_canvas_def)
  have save: "saveState Context s = Inr s1"
    unfolding s1_def hs_def using c pos by (rule saveState_ok)
  have put: "putImageData (bitmap c) c1 = c1\<lparr>bitmap := bitmap c\<rparr>"
    using w1 h1 len by (intro putImageData_same_size) simp_all
  have "undo Context s2 =
          Inr (Undefined,
               onAssistantMessage ''Undid last action.''
                 (s2\<lparr>redoStack := redoStack s2 @ [bitmap c1],
                      historyStack := butlast (historyStack s2),
                      canvasRef := Some (putImageData (last (historyStack s2)) c1)\<rparr>))"
    using pos1 hs by (intro undo_ok) (simp_all add: s2_def s1_def)
  then have undo: "undo Context s2 = Inr (Undefined, s3)"
    using put hs by (simp add: s3_def s2_def s1_def)
  have put1: "putImageData (bitmap c1) (c1\<lparr>bitmap := bitmap c\<rparr>) = c1"
    using putImageData_same_size [of "bitmap c1" "c1\<lparr>bitmap := bitmap c\<rparr>"] w1 h1 len1
    by simp
  have "redo Context s3 =
          Inr (Undefined,
               onAssistantMessage ''Redid action.''
                 (s3\<lparr>historyStack := historyStack s3 @ [bitmap (c1\<lparr>bitmap := bitmap c\<rparr>)],
                      redoStack := butlast (redoStack s3),
                      canvasRef := Some (putImageData (last (redoStack s3))
                                           (c1\<lparr>bitmap := bitmap c\<rparr>))\<rparr>))"
    using pos by (intro redo_ok) (simp_all add: s3_def onAssistantMessage_def)
  then have redo: "redo Context s3 = Inr (Undefined, s4)"
    using put1 by (simp add: s4_def s3_def onAssistantMessage_def)
  have "butlast hs @ [bitmap c] = hs"
    using hs by (metis append_butlast_last_id)
  then have "historyStack s4 = historyStack s1"
    by (simp add: s4_def s1_def onAssistantMessage_def)
  moreover have "pixels s3 = data (bitmap c)" "pixels s4 = data (bitmap c1)"
    "redoStack s4 = []"
    by (simp_all add: pixels_def s4_def s3_def onAssistantMessage_def)
  ultimately show ?thesis
    using save undo redo unfolding s2_def by blast
qed

theorem undo_redo_round_trip_witness:
  "canvasRef (editor_of (canvas_of 1 1 [white])) = Some (canvas_of 1 1 [white])
   \<and> wf_canvas (canvas_of 1 1 [white]) \<and> wf_canvas (canvas_of 1 1 [red_pixel])
   \<and> (\<exists>s1 s3 s4.
           saveState Context (editor_of (canvas_of 1 1 [white])) = Inr s1
         \<and> undo Context (s1\<lparr>canvasRef := Some (canvas_of 1 1 [red_pixel])\<rparr>) = Inr (Undefined, s3)
         \<and> pixels s3 = [white]
         \<and> redo Context s3 = Inr (Undefined, s4)
         \<and> pixels s4 = [red_pixel]
         \<and> historyStack s4 = historyStack s1 \<and> redoStack s4 = [])"
  using undo_redo_round_trip
    [of "editor_of (canvas_of 1 1 [white])" "canvas_of 1 1 [white]" "canvas_of 1 1 [red_pixel]"]
  by (simp add: editor_of_def canvas_of_def wf_canvas_def)

lemma cap_drop:
  assumes "length hs \<le> MAX_HISTORY"
  shows "(if MAX_HISTORY < length hs + 1 then tl (hs @ [d]) else hs @ [d])
           = drop (length hs + 1 - MAX_HISTORY) (hs @ [d])"
proof (cases "MAX_HISTORY < length hs + 1")
  case True
  with assms have k: "length hs + 1 - MAX_HISTORY = Suc 0" by simp
  have "drop (Suc 0) (hs @ [d]) = tl (hs @ [d])"
    by (simp add: drop_Suc del: drop_append)
  then show ?thesis
    by (simp only: k True if_True)
next
  case False
  then show ?thesis by simp
qed

lemma checkpoints_history:
  assumes "canvasRef s = Some c" "0 < width (bitmap c)" "0 < height (bitmap c)"
    and "length (historyStack s) \<le> MAX_HISTORY"
  shows "\<exists>s'. checkpoints Context ps s = Inr s'
           \<and> historyStack s' =
               drop (length (historyStack s) + length ps - MAX_HISTORY)
                 (historyStack s @ map (\<lambda>p. (bitmap c)\<lparr>data := p\<rparr>) ps)"
  using assms
proof (induction ps arbitrary: s c)
  case Nil
  then show ?case by simp
next
  case (Cons p ps)
  let ?c = "repaint p c"
  let ?d = "(bitmap c)\<lparr>data := p\<rparr>"
  let ?s = "on_canvas (repaint p) s"
  define hs where "hs = drop (length (historyStack s) + 1 - MAX_HISTORY) (historyStack s @ [?d])"
  define s1 where "s1 = ?s\<lparr>historyStack := hs, redoStack := []\<rparr>"
  have c: "canvasRef ?s = Some ?c" "bitmap ?c = ?d"
    using Cons.prems(1) by (simp_all add: on_canvas_def repaint_def)
  have hist: "historyStack ?s = historyStack s"
    using Cons.prems(1) by (simp add: on_canvas_def)
  have "saveState Context ?s =
          Inr (?s\<lparr>historyStack :=
                   (if MAX_HISTORY < length (historyStack ?s) + 1
                    then tl (historyStack ?s @ [bitmap ?c]) else historyStack ?s @ [bitmap ?c]),
                 redoStack := []\<rparr>)"
    using c(1) Cons.prems(2,3) by (intro saveState_ok) (simp_all add: repaint_def)
  moreover have "(if MAX_HISTORY < length (historyStack ?s) + 1
                    then tl (historyStack ?s @ [bitmap ?c]) else historyStack ?s @ [bitmap ?c])
                 = hs"
    by (simp only: hist c(2) hs_def cap_drop [OF Cons.prems(4)])
  ultimately have save: "saveState Context ?s = Inr s1"
    by (simp only: s1_def)
  have len: "length hs \<le> MAX_HISTORY"
    using Cons.prems(4) by (simp add: hs_def)
  have "\<exists>s'. checkpoints Context ps s1 = Inr s'
           \<and> historyStack s' =
               drop (length (historyStack s1) + length ps - MAX_HISTORY)
                 (historyStack s1 @ map (\<lambda>q. (bitmap ?c)\<lparr>data := q\<rparr>) ps)"
    using c Cons.prems(2,3) len by (intro Cons.IH) (simp_all add: s1_def)
  then obtain s' where run: "checkpoints Context ps s1 = Inr s'"
    and h: "historyStack s' =
              drop (length hs + length ps - MAX_HISTORY)
                (hs @ map (\<lambda>q. (bitmap c)\<lparr>data := q\<rparr>) ps)"
    using c(2) by (auto simp add: s1_def simp del: drop_append)
  let ?rest = "map (\<lambda>q. (bitmap c)\<lparr>data := q\<rparr>) ps"
  let ?k = "length (historyStack s) + 1 - MAX_HISTORY"
  have "?k \<le> length (historyStack s @ [?d])"
    by simp
  then have "hs @ ?rest = drop ?k ((historyStack s @ [?d]) @ ?rest)"
    unfolding hs_def by (simp only: drop_append) simp
  moreover have "length hs + length ps - MAX_HISTORY + ?k
                   = length (historyStack s) + length (p # ps) - MAX_HISTORY"
    using Cons.prems(4) by (simp add: hs_def)
  ultimately have "historyStack s' =
      drop (length (historyStack s) + length (p # ps) - MAX_HISTORY)
        (historyStack s @ map (\<lambda>q. (bitmap c)\<lparr>data := q\<rparr>) (p # ps))"
    using h by (simp only: drop_drop) (simp del: drop_append)
  then show ?case
    using save run by simp
qed

text \<open>
  C3. The postcondition of a checkpoint on a live, non-empty canvas: the snapshot of the
  current pixels is the newest entry of the undo stack, the single oldest entry is dropped
  when the push takes the stack over \<open>MAX_HISTORY\<close>, and the redo stack is empty. From a
  stack within the cap, a run of checkpoints leaves the most recent \<open>MAX_HISTORY\<close> entries
  in order; once the run has \<open>MAX_HISTORY\<close> checkpoints or more, the stack has exactly
  \<open>MAX_HISTORY\<close> entries, the last \<open>MAX_HISTORY\<close> snapshots of the run.
\<close>

theorem checkpoint_postcondition:
  assumes c: "canvasRef s = Some c" and pos: "0 < width (bitmap c)" "0 < height (bitmap c)"
  shows "(\<exists>s'. saveState Context s = Inr s'
            \<and> canvasRef s' = Some c \<and> redoStack s' = []
            \<and> last (historyStack s') = bitmap c
            \<and> historyStack s' =
                (if MAX_HISTORY < length (historyStack s) + 1
                 then tl (historyStack s) @ [bitmap c] else historyStack s @ [bitmap c]))
       \<and> (length (historyStack s) \<le> MAX_HISTORY \<longrightarrow>
            (\<exists>s'. checkpoints Context ps s = Inr s'
               \<and> historyStack s' =
                   drop (length (historyStack s) + length ps - MAX_HISTORY)
                     (historyStack s @ map (\<lambda>p. (bitmap c)\<lparr>data := p\<rparr>) ps)
               \<and> (MAX_HISTORY \<le> length ps \<longrightarrow>
                    length (historyStack s') = MAX_HISTORY
                  \<and> historyStack s' =
                      drop (length ps - MAX_HISTORY) (map (\<lambda>p. (bitmap c)\<lparr>data := p\<rparr>) ps))))"
proof (intro conjI impI)
  have "tl (historyStack s @ [bitmap c]) = tl (historyStack s) @ [bitmap c]"
    if "MAX_HISTORY < length (historyStack s) + 1"
    using that by (cases "historyStack s") (simp_all add: MAX_HISTORY_def)
  then show "\<exists>s'. saveState Context s = Inr s'
            \<and> canvasRef s' = Some c \<and> redoStack s' = []
            \<and> last (historyStack s') = bitmap c
            \<and> historyStack s' =
                (if MAX_HISTORY < length (historyStack s) + 1
                 then tl (historyStack s) @ [bitmap c] else historyStack s @ [bitmap c])"
    using saveState_ok [OF c pos] c by simp
next
  assume len: "length (historyStack s) \<le> MAX_HISTORY"
  let ?snaps = "map (\<lambda>p. (bitmap c)\<lparr>data := p\<rparr>) ps"
  from checkpoints_history [OF c pos len, of ps]
  obtain s' where run: "checkpoints Context ps s = Inr s'"
    and h: "historyStack s' =
              drop (length (historyStack s) + length ps - MAX_HISTORY) (historyStack s @ ?snaps)"
    by blast
  have "length (historyStack s') = MAX_HISTORY
      \<and> historyStack s' = drop (length ps - MAX_HISTORY) ?snaps"
    if "MAX_HISTORY \<le> length ps"
    using that h by simp
  then show "\<exists>s'. checkpoints Context ps s = Inr s'
               \<and> historyStack s' =
                   drop (length (historyStack s) + length ps - MAX_HISTORY)
                     (historyStack s @ ?snaps)
               \<and> (MAX_HISTORY \<le> length ps \<longrightarrow>
                    length (historyStack s') = MAX_HISTORY
                  \<and> historyStack s' = drop (length ps - MAX_HISTORY) ?snaps)"
    using run h by blast
qed


theorem checkpoint_postcondition_witness:
  "canvasRef (editor_of (canvas_of 1 1 [white])) = Some (canvas_of 1 1 [white])
   \<and> 0 < width (bitmap (canvas_of 1 1 [white])) \<and> 0 < height (bitmap (canvas_of 1 1 [white]))
   \<and> length (historyStack (editor_of (canvas_of 1 1 [white]))) \<le> MAX_HISTORY
   \<and> MAX_HISTORY \<le> length (replicate 21 [red_pixel])
   \<and> (\<exists>s'. saveState Context (editor_of (canvas_of 1 1 [white])) = Inr s'
          \<and> redoStack s' = []
          \<and> historyStack s' = [\<lparr>width = 1, height = 1, data = [white]\<rparr>])
   \<and> (\<exists>s'. checkpoints Context (replicate 21 [red_pixel]) (editor_of (canvas_of 1 1 [white])) = Inr s'
          \<and> length (historyStack s') = MAX_HISTORY
          \<and> historyStack s' = replicate 20 \<lparr>width = 1, height = 1, data = [red_pixel]\<rparr>)"
  using checkpoint_postcondition
    [of "editor_of (canvas_of 1 1 [white])" "canvas_of 1 1 [white]" "replicate 21 [red_pixel]"]
  by (auto simp add: editor_of_def canvas_of_def MAX_HISTORY_def)

section \<open>Operations that fail\<close>

lemma drawImage_opaque_same_size:
  assumes w: "width src = width (bitmap c)" and h: "height src = height (bitmap c)"
    and len: "length (data src) = width src * height src"
    and op: "list_all (\<lambda>p. alpha p = 255) (data src)"
  shows "drawImage B src c = c\<lparr>bitmap := src\<rparr>"
proof -
  let ?w = "width (bitmap c)" and ?h = "height (bitmap c)"
  have "map (\<lambda>i. if i mod ?w < ?w \<and> i div ?w < ?h
                  then src_over B (data src ! (i div ?w * ?w + i mod ?w)) (data (bitmap c) ! i)
                  else data (bitmap c) ! i) [0..<?w * ?h]
        = map (\<lambda>i. data src ! i) [0..<?w * ?h]"
  proof (rule map_cong)
    fix i assume "i \<in> set [0..<?w * ?h]"
    then have i: "i < ?w * ?h" by simp
    then have "i < length (data src)" using len w h by simp
    with op have "alpha (data src ! i) = 255"
      by (simp add: list_all_length)
    then show "(if i mod ?w < ?w \<and> i div ?w < ?h
                  then src_over B (data src ! (i div ?w * ?w + i mod ?w)) (data (bitmap c) ! i)
                  else data (bitmap c) ! i) = data src ! i"
      using index_in_row [OF i] by (simp add: src_over_def)
  qed simp
  also have "\<dots> = data src"
    using len w h by (metis map_nth)
  finally have "data (bitmap (drawImage B src c)) = data src"
    unfolding drawImage_def pixel_at_def Let_def w h by simp
  moreover have "width (bitmap (drawImage B src c)) = width src"
    and "height (bitmap (drawImage B src c)) = height src"
    by (simp_all add: drawImage_def Let_def w h)
  ultimately have "bitmap (drawImage B src c) = src"
    by simp
  moreover have "ctx (drawImage B src c) = ctx c"
    by (simp add: drawImage_def Let_def)
  ultimately show ?thesis
    by (cases c) (simp add: drawImage_def Let_def)
qed

lemma applyFilter_unknown:
  assumes c: "canvasRef s = Some c" and wf: "wf_canvas c" and op: "opaque c"
    and unknown: "css_filter B f = None"
  shows "\<exists>s1. saveState Context s = Inr s1
            \<and> applyFilter B Context f s = Inr (Undefined, onAssistantMessage ''Filter applied!'' s1)"
proof -
  from wf have pos: "0 < width (bitmap c)" "0 < height (bitmap c)"
    and len: "length (data (bitmap c)) = width (bitmap c) * height (bitmap c)"
    by (simp_all add: wf_canvas_def)
  let ?temp0 = "set_height (height (bitmap c)) (set_width (width (bitmap c)) createElement_canvas)"
  from saveState_ok [OF c pos] obtain s1 where save: "saveState Context s = Inr s1"
    and c1: "canvasRef s1 = Some c" using c by simp
  have "drawImage B (bitmap c) ?temp0 = ?temp0\<lparr>bitmap := bitmap c\<rparr>"
    using len op by (intro drawImage_opaque_same_size)
      (simp_all add: set_height_def set_width_def blank_def opaque_def)
  then have temp: "bitmap (drawImage B (bitmap c) ?temp0) = bitmap c"
    by simp
  have filtered: "render_filter B f (bitmap c) = bitmap c"
    using unknown by (simp add: render_filter_def)
  have "drawImage B (bitmap c) c = c\<lparr>bitmap := bitmap c\<rparr>"
    using len op by (intro drawImage_opaque_same_size) (simp_all add: opaque_def)
  then have undrawn: "drawImage B (bitmap c) c = c"
    by simp
  have same: "s1\<lparr>canvasRef := Some c\<rparr> = s1"
    using c1 by (cases s1) simp
  have "applyFilter B Context f s =
          Inr (Undefined, onAssistantMessage ''Filter applied!'' (s1\<lparr>canvasRef := Some c\<rparr>))"
    using c save c1 by (simp add: applyFilter_def temp filtered undrawn)
  then have "applyFilter B Context f s = Inr (Undefined, onAssistantMessage ''Filter applied!'' s1)"
    by (simp only: same)
  with save show ?thesis by blast
qed

text \<open>
  C4, as the code has it. On a live, opaque, non-empty canvas, \<open>applyFilter\<close> with a string
  the browser does not accept as a filter reports no failure: it returns normally, says
  \<^verbatim>\<open>Filter applied!\<close>, leaves the canvas as it was, and has pushed a checkpoint and cleared the
  redo stack. \<open>addImage\<close> with a URL that does not decode reports no failure either: it
  returns normally, says nothing and leaves the canvas as it was.
\<close>

theorem failures_are_silent:
  assumes c: "canvasRef s = Some c" and wf: "wf_canvas c" and op: "opaque c"
  shows "(css_filter B f = None \<longrightarrow>
            (\<exists>s'. applyFilter B Context f s = Inr (Undefined, s')
               \<and> canvasRef s' = canvasRef s
               \<and> messages s' = messages s @ [''Filter applied!'']
               \<and> historyStack s' =
                   (if MAX_HISTORY < length (historyStack s) + 1
                    then tl (historyStack s @ [bitmap c]) else historyStack s @ [bitmap c])
               \<and> redoStack s' = []))
       \<and> (decode_image B url = None \<longrightarrow>
            (\<exists>s'. addImage B Context url s = Inr (Undefined, s')
               \<and> canvasRef s' = canvasRef s \<and> messages s' = messages s))"
proof (intro conjI impI)
  from wf have pos: "0 < width (bitmap c)" "0 < height (bitmap c)"
    by (simp_all add: wf_canvas_def)
  note save = saveState_ok [OF c pos]
  {
    assume "css_filter B f = None"
    from applyFilter_unknown [OF c wf op this] save
    show "\<exists>s'. applyFilter B Context f s = Inr (Undefined, s')
               \<and> canvasRef s' = canvasRef s
               \<and> messages s' = messages s @ [''Filter applied!'']
               \<and> historyStack s' =
                   (if MAX_HISTORY < length (historyStack s) + 1
                    then tl (historyStack s @ [bitmap c]) else historyStack s @ [bitmap c])
               \<and> redoStack s' = []"
      by (auto simp add: onAssistantMessage_def)
  }
  {
    assume "decode_image B url = None"
    then show "\<exists>s'. addImage B Context url s = Inr (Undefined, s')
               \<and> canvasRef s' = canvasRef s \<and> messages s' = messages s"
      using c save by (simp add: addImage_def)
  }
qed

theorem failures_are_silent_witness:
  "canvasRef (editor_of (canvas_of 1 1 [white])) = Some (canvas_of 1 1 [white])
   \<and> wf_canvas (canvas_of 1 1 [white]) \<and> opaque (canvas_of 1 1 [white])
   \<and> css_filter idle_browser ''sparkle(3)'' = None
   \<and> decode_image idle_browser ''data:,'' = None
   \<and> (\<exists>s'. applyFilter idle_browser Context ''sparkle(3)'' (editor_of (canvas_of 1 1 [white]))
               = Inr (Undefined, s')
          \<and> canvasRef s' = Some (canvas_of 1 1 [white])
          \<and> messages s' = [''Filter applied!'']
          \<and> historyStack s' = [\<lparr>width = 1, height = 1, data = [white]\<rparr>]
          \<and> redoStack s' = [])
   \<and> (\<exists>s'. addImage idle_browser Context ''data:,'' (editor_of (canvas_of 1 1 [white]))
               = Inr (Undefined, s')
          \<and> canvasRef s' = Some (canvas_of 1 1 [white]) \<and> messages s' = [])"
  using failures_are_silent
    [of "editor_of (canvas_of 1 1 [white])" "canvas_of 1 1 [white]" idle_browser
        "''sparkle(3)''" "''data:,''"]
  by (auto simp add: editor_of_def canvas_of_def wf_canvas_def opaque_def white_def
        idle_browser_def MAX_HISTORY_def)

text \<open>
  C4, as the claim has it, fails on a 1 by 1 white canvas with empty stacks: neither call
  fails, and after each the undo stack holds a snapshot it did not hold before.
\<close>

theorem failures_leave_a_checkpoint:
  "applyFilter idle_browser Context ''sparkle(3)'' (editor_of (canvas_of 1 1 [white]))
     = Inr (Undefined,
            (editor_of (canvas_of 1 1 [white]))
              \<lparr>historyStack := [\<lparr>width = 1, height = 1, data = [white]\<rparr>],
               messages := [''Filter applied!'']\<rparr>)
   \<and> addImage idle_browser Context ''data:,'' (editor_of (canvas_of 1 1 [white]))
     = Inr (Undefined,
            (editor_of (canvas_of 1 1 [white]))
              \<lparr>historyStack := [\<lparr>width = 1, height = 1, data = [white]\<rparr>]\<rparr>)"
  by (simp add: applyFilter_def addImage_def saveState_def getImageData_def editor_of_def
        canvas_of_def idle_browser_def MAX_HISTORY_def shift_def render_filter_def drawImage_def
        set_height_def set_width_def blank_def createElement_canvas_def pixel_at_def
        src_over_def white_def onAssistantMessage_def transparent_black_def Let_def)

section \<open>Before the context exists\<close>

text \<open>
  C9, as the code has it. Called from a render whose \<^verbatim>\<open>context\<close> is still \<^verbatim>\<open>null\<close>, every
  operation returns normally and changes nothing: no exception, no message, no pixel, no
  stack entry.
\<close>

theorem before_initialisation:
  "undo Null s = Inr (Undefined, s)
   \<and> redo Null s = Inr (Undefined, s)
   \<and> applyFilter B Null f s = Inr (Undefined, s)
   \<and> addImage B Null url s = Inr (Undefined, s)
   \<and> startDrawing Null tool e s = Inr s
   \<and> draw B isDrawing Null brushSize brushColor tool e s = Inr s
   \<and> stopDrawing Null isDrawing s = Inr s"
  by (simp add: undo_def redo_def applyFilter_def addImage_def startDrawing_def draw_def
        stopDrawing_def split: option.split)

theorem before_initialisation_witness:
  "undo Null initial_editor = Inr (Undefined, initial_editor)
   \<and> redo Null initial_editor = Inr (Undefined, initial_editor)
   \<and> applyFilter idle_browser Null ''grayscale(100%)'' initial_editor = Inr (Undefined, initial_editor)
   \<and> addImage idle_browser Null ''data:,'' initial_editor = Inr (Undefined, initial_editor)
   \<and> startDrawing Null BRUSH \<lparr>offsetX = 1, offsetY = 1\<rparr> initial_editor = Inr initial_editor
   \<and> draw idle_browser True Null 10 ''#06b6d4'' BRUSH \<lparr>offsetX = 1, offsetY = 1\<rparr> initial_editor
       = Inr initial_editor
   \<and> stopDrawing Null True initial_editor = Inr initial_editor"
  using before_initialisation [of initial_editor idle_browser "''grayscale(100%)''" "''data:,''"
      BRUSH "\<lparr>offsetX = 1, offsetY = 1\<rparr>" True 10 "''#06b6d4''"]
  by simp

text \<open>
  C9, as the claim has it, fails on the freshly created component: \<open>undo\<close> and a pointer
  press return normally, and nothing has been reported.
\<close>

theorem uninitialised_is_no_error:
  "undo first_render_context initial_editor = Inr (Undefined, initial_editor)
   \<and> startDrawing first_render_context BRUSH \<lparr>offsetX = 1, offsetY = 1\<rparr> initial_editor
       = Inr initial_editor
   \<and> messages initial_editor = []"
  by (simp add: undo_def startDrawing_def first_render_context_def initial_editor_def)

section \<open>The stroke engine\<close>

text \<open>
  C7. With the select, hand, AI-add or smart-edit tool, a press and a move leave the whole
  editor as it was, so an idle engine stays idle and neither pixels nor stacks change; and
  with any tool a move while \<^verbatim>\<open>isDrawing\<close> is false is ignored the same way. None of them
  throws.
\<close>

theorem ignored_pointer_events:
  "(tool \<in> {SELECT, HAND, AI_ADD, SMART_EDIT} \<longrightarrow>
      startDrawing context tool e s = Inr s
    \<and> draw B isDrawing context brushSize brushColor tool e s = Inr s)
   \<and> draw B False context brushSize brushColor tool e s = Inr s"
  by (auto simp add: startDrawing_def draw_def pointer_ignored_def)

theorem ignored_pointer_events_witness:
  "HAND \<in> {SELECT, HAND, AI_ADD, SMART_EDIT}
   \<and> startDrawing Context HAND \<lparr>offsetX = 3, offsetY = 4\<rparr> (editor_of (canvas_of 1 1 [white]))
       = Inr (editor_of (canvas_of 1 1 [white]))
   \<and> draw idle_browser True Context 10 ''#06b6d4'' HAND \<lparr>offsetX = 3, offsetY = 4\<rparr>
         (editor_of (canvas_of 1 1 [white]))
       = Inr (editor_of (canvas_of 1 1 [white]))
   \<and> draw idle_browser False Context 10 ''#06b6d4'' HAND \<lparr>offsetX = 3, offsetY = 4\<rparr>
         (editor_of (canvas_of 1 1 [white]))
       = Inr (editor_of (canvas_of 1 1 [white]))"
  using ignored_pointer_events [of HAND Context "\<lparr>offsetX = 3, offsetY = 4\<rparr>"
      "editor_of (canvas_of 1 1 [white])" idle_browser True 10 "''#06b6d4''"]
  by simp

section \<open>Initialisation\<close>

lemma fillRect_white:
  assumes "fillStyle (ctx c) = white"
  shows "fillRect B c = c\<lparr>bitmap := (bitmap c)\<lparr>data := replicate (length (data (bitmap c))) white\<rparr>\<rparr>"
proof -
  have "src_over B white = (\<lambda>d. white)"
    by (rule ext) (simp add: src_over_def white_def)
  then show ?thesis
    using assms by (simp add: fillRect_def Let_def map_replicate_const)
qed

text \<open>
  C10. The initialising effect runs in the closure of the first render, where \<^verbatim>\<open>context\<close> is
  \<^verbatim>\<open>null\<close>: its \<^verbatim>\<open>saveState()\<close> returns at the guard. After the effect the canvas is white and
  both stacks are empty, so the first \<open>undo\<close> of the next render does nothing.
\<close>

theorem initial_save_is_lost:
  "\<exists>s. init_effect B first_render_context w h initial_editor = Inr s
       \<and> useState_context s = Context
       \<and> pixels s = replicate (w * h) white
       \<and> historyStack s = [] \<and> redoStack s = []
       \<and> undo Context s = Inr (Undefined, s)"
proof -
  let ?c = "(set_height h (set_width w createElement_canvas))
              \<lparr>ctx := default_context\<lparr>lineCap := ''round'', lineJoin := ''round'',
                                       fillStyle := white\<rparr>\<rparr>"
  let ?s = "initial_editor\<lparr>canvasRef := Some (fillRect B ?c), useState_context := Context\<rparr>"
  have "init_effect B first_render_context w h initial_editor = Inr ?s"
    by (simp add: init_effect_def first_render_context_def initial_editor_def saveState_def
          Let_def set_width_def set_height_def)
  moreover have "fillRect B ?c = ?c\<lparr>bitmap := (bitmap ?c)\<lparr>data := replicate (w * h) white\<rparr>\<rparr>"
    using fillRect_white [of ?c B] by (simp add: set_width_def set_height_def blank_def)
  then have "pixels ?s = replicate (w * h) white"
    by (simp add: pixels_def)
  moreover have "historyStack ?s = []" "redoStack ?s = []" "useState_context ?s = Context"
    by (simp_all add: initial_editor_def)
  moreover from \<open>historyStack ?s = []\<close> have "undo Context ?s = Inr (Undefined, ?s)"
    by (simp add: undo_def split: option.split)
  ultimately show ?thesis by blast
qed

section \<open>Resizing\<close>

text \<open>
  C8. The resize handler that the component installs is the one of the first render, whose
  \<^verbatim>\<open>context\<close> is \<^verbatim>\<open>null\<close>: its guard \<^verbatim>\<open>if (canvasRef.current && context)\<close> never passes. A
  resize event leaves the whole editor as it was, in every state and for every new layout
  size. A 1 by 1 red canvas whose layout grows to 2 by 1 is still the 1 by 1 red canvas:
  the surface does not take the new size, so it has no pixel outside the old extent, and
  nothing was copied or filled.
\<close>

theorem resize_is_ignored:
  "handleResize first_render_context w2 h2 s = Inr s
   \<and> fire B (Resize w2 h2) s = s
   \<and> canvas_size (fire idle_browser (Resize 2 1) (editor_of (canvas_of 1 1 [red_pixel])))
       = Some (1, 1)
   \<and> pixels (fire idle_browser (Resize 2 1) (editor_of (canvas_of 1 1 [red_pixel])))
       = [red_pixel]"
proof -
  have ignored: "handleResize first_render_context w h t = Inr t" for w h t
    by (simp add: handleResize_def first_render_context_def split: option.split)
  then have fired: "fire C (Resize w h) t = t" for C w h t
    by (simp add: keep_def)
  show ?thesis
    by (simp add: ignored keep_def canvas_size_def pixels_def editor_of_def canvas_of_def)
qed

section \<open>The cap holds in every reachable state\<close>


lemma saveState_frame:
  assumes "saveState context s = Inr s'"
  shows "canvasRef s' = canvasRef s"
  using assms
  by (auto simp add: saveState_def Let_def split: option.splits if_splits sum.splits)





lemma within_cap_frame [simp]:
  "within_cap (s\<lparr>canvasRef := c\<rparr>) = within_cap s"
  "within_cap (s\<lparr>messages := m\<rparr>) = within_cap s"
  "within_cap (s\<lparr>useState_isDrawing := b\<rparr>) = within_cap s"
  "within_cap (s\<lparr>useState_context := k\<rparr>) = within_cap s"
  "within_cap (on_canvas f s) = within_cap s"
  "within_cap (onAssistantMessage msg s) = within_cap s"
  by (simp_all add: within_cap_def on_canvas_def onAssistantMessage_def split: option.split)











lemma returned_Inr:
  "returned r = Inr s' \<Longrightarrow> \<exists>v. r = Inr (v, s')"
  by (auto simp add: returned_def split: sum.splits)






section \<open>Nothing to undo, nothing to redo\<close>

lemma canvas_size_frame [simp]:
  "canvas_size (s\<lparr>historyStack := hs\<rparr>) = canvas_size s"
  "canvas_size (s\<lparr>redoStack := rs\<rparr>) = canvas_size s"
  "canvas_size (s\<lparr>messages := m\<rparr>) = canvas_size s"
  "canvas_size (s\<lparr>useState_isDrawing := b\<rparr>) = canvas_size s"
  "canvas_size (s\<lparr>useState_context := k\<rparr>) = canvas_size s"
  "canvas_size (onAssistantMessage msg s) = canvas_size s"
  by (simp_all add: canvas_size_def onAssistantMessage_def)

lemma canvas_size_replace:
  assumes "canvasRef s = Some c" "width (bitmap c') = width (bitmap c)"
    "height (bitmap c') = height (bitmap c)"
  shows "canvas_size (s\<lparr>canvasRef := Some c'\<rparr>) = canvas_size s"
  using assms by (simp add: canvas_size_def)

lemma same_size [simp]:
  "width (bitmap (putImageData d c)) = width (bitmap c)"
  "height (bitmap (putImageData d c)) = height (bitmap c)"
  "width (bitmap (drawImage B src c)) = width (bitmap c)"
  "height (bitmap (drawImage B src c)) = height (bitmap c)"
  "width (bitmap (fillRect B c)) = width (bitmap c)"
  "height (bitmap (fillRect B c)) = height (bitmap c)"
  "width (bitmap (stroke B c)) = width (bitmap c)"
  "height (bitmap (stroke B c)) = height (bitmap c)"
  "width (bitmap (beginPath c)) = width (bitmap c)"
  "height (bitmap (beginPath c)) = height (bitmap c)"
  "width (bitmap (moveTo x y c)) = width (bitmap c)"
  "height (bitmap (moveTo x y c)) = height (bitmap c)"
  "width (bitmap (lineTo x y c)) = width (bitmap c)"
  "height (bitmap (lineTo x y c)) = height (bitmap c)"
  "width (bitmap (closePath c)) = width (bitmap c)"
  "height (bitmap (closePath c)) = height (bitmap c)"
  "width (bitmap (set_lineWidth v c)) = width (bitmap c)"
  "height (bitmap (set_lineWidth v c)) = height (bitmap c)"
  by (simp_all add: putImageData_def drawImage_def fillRect_def stroke_def beginPath_def
      moveTo_def lineTo_def closePath_def set_lineWidth_def Let_def)

lemma canvas_size_on_canvas:
  assumes "\<And>c. width (bitmap (f c)) = width (bitmap c)"
    and "\<And>c. height (bitmap (f c)) = height (bitmap c)"
  shows "canvas_size (on_canvas f s) = canvas_size s"
  using assms by (simp add: canvas_size_def on_canvas_def split: option.split)

lemma restorable_frame:
  assumes "historyStack s' = historyStack s" "redoStack s' = redoStack s"
    "canvas_size s' = canvas_size s" "restorable s"
  shows "restorable s'"
  using assms by (simp add: restorable_def)

lemma saveState_restorable:
  assumes "saveState context s = Inr s'" "restorable s"
  shows "restorable s'" and "canvas_size s' = canvas_size s"
  using assms
  by (auto simp add: saveState_def restorable_def canvas_size_def getImageData_def Let_def
      split: option.splits if_splits sum.splits)

lemma undo_restorable:
  assumes "undo context s = Inr (v, s')" "restorable s"
  shows "restorable s'"
  using assms
  by (auto simp add: undo_def restorable_def canvas_size_def getImageData_def pop_def Let_def
      onAssistantMessage_def split: option.splits if_splits sum.splits)

lemma redo_restorable:
  assumes "redo context s = Inr (v, s')" "restorable s"
  shows "restorable s'"
  using assms
  by (auto simp add: redo_def restorable_def canvas_size_def getImageData_def pop_def Let_def
      onAssistantMessage_def split: option.splits if_splits sum.splits)

lemma undo_never_throws:
  assumes "restorable s"
  shows "\<exists>s'. undo context s = Inr (Undefined, s')"
  using assms
  by (auto simp add: undo_def restorable_def canvas_size_def getImageData_def pop_def Let_def
      split: option.splits)

lemma redo_never_throws:
  assumes "restorable s"
  shows "\<exists>s'. redo context s = Inr (Undefined, s')"
  using assms
  by (auto simp add: redo_def restorable_def canvas_size_def getImageData_def pop_def Let_def
      split: option.splits)


lemma applyFilter_restorable:
  assumes run: "applyFilter B context f s = Inr (v, s')" and inv: "restorable s"
  shows "restorable s'"
proof (cases "context = Null \<or> canvasRef s = None")
  case True
  with run have "s' = s" by (simp add: applyFilter_def)
  with inv show ?thesis by simp
next
  case False
  then obtain c where c: "canvasRef s = Some c" and live: "context \<noteq> Null" by auto
  show ?thesis
  proof (cases "saveState context s")
    case (Inl e)
    with run False show ?thesis by (simp add: applyFilter_def)
  next
    case (Inr s1)
    from saveState_restorable [OF Inr inv]
    have inv1: "restorable s1" and size1: "canvas_size s1 = canvas_size s" .
    from saveState_frame [OF Inr] c have c1: "canvasRef s1 = Some c" by simp
    with run Inr c live
    obtain c' where s': "s' = onAssistantMessage ''Filter applied!'' (s1\<lparr>canvasRef := Some c'\<rparr>)"
      and "width (bitmap c') = width (bitmap c)" "height (bitmap c') = height (bitmap c)"
      by (auto simp add: applyFilter_def)
    with c1 have "canvas_size s' = canvas_size s1"
      by (simp add: canvas_size_replace)
    with inv1 s' show ?thesis
      by (intro restorable_frame [of s' s1]) (simp_all add: onAssistantMessage_def)
  qed
qed

lemma addImage_onload_restorable:
  assumes "addImage_onload B img s = Inr s'" "restorable s"
  shows "restorable s'"
  using assms
  by (auto simp add: addImage_onload_def Let_def restorable_def canvas_size_def
      onAssistantMessage_def split: option.splits)

lemma addImage_restorable:
  assumes run: "addImage B context url s = Inr (v, s')" and inv: "restorable s"
  shows "restorable s'"
proof (cases "saveState context s")
  case (Inl e)
  with run inv show ?thesis
    by (simp add: addImage_def split: if_splits)
next
  case (Inr s1)
  from saveState_restorable(1) [OF Inr inv] have "restorable s1" .
  with run Inr inv show ?thesis
    by (auto simp add: addImage_def split: if_splits option.splits sum.splits
        dest: addImage_onload_restorable)
qed

lemma handleImport_onload_restorable:
  assumes run: "handleImport_onload B context img s = Inr s'" and inv: "restorable s"
  shows "restorable s'"
proof (cases "context = Null \<or> canvasRef s = None")
  case True
  with run have "s' = s" by (auto simp add: handleImport_onload_def split: option.splits)
  with inv show ?thesis by simp
next
  case False
  then obtain c where c: "canvasRef s = Some c" and live: "context \<noteq> Null" by auto
  show ?thesis
  proof (cases "saveState context s")
    case (Inl e)
    with run c live show ?thesis by (simp add: handleImport_onload_def)
  next
    case (Inr s1)
    from saveState_restorable [OF Inr inv]
    have inv1: "restorable s1" and size1: "canvas_size s1 = canvas_size s" .
    from saveState_frame [OF Inr] c have c1: "canvasRef s1 = Some c" by simp
    from run Inr c live
    obtain c' where s': "s' = onAssistantMessage ''Image loaded! Ready to edit.''
                                (s1\<lparr>canvasRef := Some c'\<rparr>)"
      and "width (bitmap c') = width (bitmap c)" "height (bitmap c') = height (bitmap c)"
      by (auto simp add: handleImport_onload_def Let_def)
    with c1 have "canvas_size s' = canvas_size s1"
      by (simp add: canvas_size_replace)
    with inv1 s' show ?thesis
      by (intro restorable_frame [of s' s1]) (simp_all add: onAssistantMessage_def)
  qed
qed

lemma on_canvas_stacks:
  "historyStack (on_canvas f s) = historyStack s" "redoStack (on_canvas f s) = redoStack s"
  by (simp_all add: on_canvas_def split: option.split)

lemma startDrawing_restorable:
  assumes run: "startDrawing context tool e s = Inr s'" and inv: "restorable s"
  shows "restorable s'"
proof (cases "context = Null \<or> pointer_ignored tool")
  case True
  with run have "s' = s" by (auto simp add: startDrawing_def split: if_splits)
  with inv show ?thesis by simp
next
  case False
  show ?thesis
  proof (cases "saveState context s")
    case (Inl ex)
    with run False show ?thesis by (simp add: startDrawing_def)
  next
    case (Inr s1)
    from saveState_restorable(1) [OF Inr inv] have inv1: "restorable s1" .
    let ?t = "on_canvas (moveTo (offsetX e) (offsetY e)) (on_canvas beginPath s1)"
    from run Inr False have s': "s' = ?t\<lparr>useState_isDrawing := True\<rparr>"
      by (simp add: startDrawing_def)
    have "canvas_size ?t = canvas_size s1"
      by (simp add: canvas_size_on_canvas)
    with inv1 s' show ?thesis
      by (intro restorable_frame [of s' s1]) (simp_all add: on_canvas_stacks)
  qed
qed

lemma draw_restorable:
  assumes run: "draw B isDrawing context brushSize brushColor tool e s = Inr s'"
    and inv: "restorable s"
  shows "restorable s'"
proof (cases "\<not> isDrawing \<or> context = Null \<or> pointer_ignored tool")
  case True
  with run have "s' = s" by (auto simp add: draw_def split: if_splits)
  with inv show ?thesis by simp
next
  case False
  with run obtain f where s': "s' = on_canvas f s"
    and "\<And>c. width (bitmap (f c)) = width (bitmap c)"
    and "\<And>c. height (bitmap (f c)) = height (bitmap c)"
    by (auto simp add: draw_def Let_def)
  then have "canvas_size s' = canvas_size s"
    by (simp add: canvas_size_on_canvas)
  with inv s' show ?thesis
    by (intro restorable_frame [of s' s]) (simp_all add: on_canvas_stacks)
qed

lemma stopDrawing_restorable:
  assumes run: "stopDrawing context isDrawing s = Inr s'" and inv: "restorable s"
  shows "restorable s'"
proof (cases "context = Null \<or> \<not> isDrawing")
  case True
  with run have "s' = s" by (auto simp add: stopDrawing_def)
  with inv show ?thesis by simp
next
  case False
  with run have s': "s' = (on_canvas closePath s)\<lparr>useState_isDrawing := False\<rparr>"
    by (auto simp add: stopDrawing_def)
  have "canvas_size (on_canvas closePath s) = canvas_size s"
    by (simp add: canvas_size_on_canvas)
  with inv s' show ?thesis
    by (intro restorable_frame [of s' s]) (simp_all add: on_canvas_stacks)
qed

lemma keep_restorable:
  assumes "restorable s" "\<And>s'. r = Inr s' \<Longrightarrow> restorable s'"
  shows "restorable (keep s r)"
  using assms by (cases r) (simp_all add: keep_def)

lemma fire_restorable:
  assumes "restorable s" "\<not> is_Mount ev"
  shows "restorable (fire B ev s)"
proof (cases ev)
  case (Mount w h)
  with assms(2) show ?thesis by simp
next
  case (Resize w h)
  have "handleResize first_render_context w h s = Inr s"
    by (simp add: handleResize_def first_render_context_def split: option.split)
  then show ?thesis unfolding Resize fire.simps
    using assms(1) by (simp add: keep_def)
next
  case Undo
  show ?thesis unfolding Undo fire.simps
    using assms(1)
    by (rule keep_restorable) (blast dest: returned_Inr undo_restorable [OF _ assms(1)])
next
  case Redo
  show ?thesis unfolding Redo fire.simps
    using assms(1)
    by (rule keep_restorable) (blast dest: returned_Inr redo_restorable [OF _ assms(1)])
next
  case (ApplyFilter f)
  show ?thesis unfolding ApplyFilter fire.simps
    using assms(1)
    by (rule keep_restorable) (blast dest: returned_Inr applyFilter_restorable [OF _ assms(1)])
next
  case (AddImage url)
  show ?thesis unfolding AddImage fire.simps
    using assms(1)
    by (rule keep_restorable) (blast dest: returned_Inr addImage_restorable [OF _ assms(1)])
next
  case (ImageLoaded img)
  show ?thesis unfolding ImageLoaded fire.simps
    using assms(1) by (rule keep_restorable) (rule addImage_onload_restorable [OF _ assms(1)])
next
  case (Import img)
  show ?thesis unfolding Import fire.simps
    using assms(1) by (rule keep_restorable) (rule handleImport_onload_restorable [OF _ assms(1)])
next
  case (MouseDown tool e)
  show ?thesis unfolding MouseDown fire.simps
    using assms(1) by (rule keep_restorable) (rule startDrawing_restorable [OF _ assms(1)])
next
  case (MouseMove brushSize brushColor tool e)
  show ?thesis unfolding MouseMove fire.simps
    using assms(1) by (rule keep_restorable) (rule draw_restorable [OF _ assms(1)])
next
  case MouseUp
  show ?thesis unfolding MouseUp fire.simps
    using assms(1) by (rule keep_restorable) (rule stopDrawing_restorable [OF _ assms(1)])
qed

lemma run_restorable:
  assumes "restorable s" "list_all (\<lambda>e. \<not> is_Mount e) evs"
  shows "restorable (run B evs s)"
  using assms unfolding run_def
  by (induction evs arbitrary: s) (simp_all add: fire_restorable)

lemma mounted_restorable:
  "restorable (fire B (Mount w h) initial_editor)"
proof -
  have "\<exists>s. init_effect B first_render_context w h initial_editor = Inr s
          \<and> historyStack s = [] \<and> redoStack s = []"
    by (simp add: init_effect_def first_render_context_def initial_editor_def saveState_def
          Let_def)
  then show ?thesis
    by (auto simp add: keep_def restorable_def)
qed

text \<open>
  C5, as the code has it. On an empty undo stack \<open>undo\<close> returns \<^verbatim>\<open>undefined\<close> and leaves the
  whole editor (pixels, both stacks, messages) as it was; \<open>redo\<close> does the same on an empty
  redo stack; both hold whatever the canvas and the context are. And in every state the
  mounted component reaches, neither \<open>undo\<close> nor \<open>redo\<close> throws: each returns
  \<^verbatim>\<open>undefined\<close>.
\<close>

theorem nothing_to_undo:
  "(historyStack s = [] \<longrightarrow> undo context s = Inr (Undefined, s))
   \<and> (redoStack s = [] \<longrightarrow> redo context s = Inr (Undefined, s))
   \<and> (list_all (\<lambda>e. \<not> is_Mount e) evs \<longrightarrow>
        (\<exists>s'. undo context (run B evs (fire B (Mount w h) initial_editor)) = Inr (Undefined, s'))
      \<and> (\<exists>s'. redo context (run B evs (fire B (Mount w h) initial_editor)) = Inr (Undefined, s')))"
proof (intro conjI impI)
  show "undo context s = Inr (Undefined, s)" if "historyStack s = []"
    using that by (simp add: undo_def split: option.split)
  show "redo context s = Inr (Undefined, s)" if "redoStack s = []"
    using that by (simp add: redo_def split: option.split)
next
  assume "list_all (\<lambda>e. \<not> is_Mount e) evs"
  with mounted_restorable
  have inv: "restorable (run B evs (fire B (Mount w h) initial_editor))"
    by (rule run_restorable)
  from inv show "\<exists>s'. undo context (run B evs (fire B (Mount w h) initial_editor))
                   = Inr (Undefined, s')"
    by (rule undo_never_throws)
  from inv show "\<exists>s'. redo context (run B evs (fire B (Mount w h) initial_editor))
                   = Inr (Undefined, s')"
    by (rule redo_never_throws)
qed

theorem nothing_to_undo_witness:
  "historyStack (editor_of (canvas_of 1 1 [white])) = []
   \<and> redoStack (editor_of (canvas_of 1 1 [white])) = []
   \<and> list_all (\<lambda>e. \<not> is_Mount e) [MouseDown BRUSH \<lparr>offsetX = 0, offsetY = 0\<rparr>, MouseUp]
   \<and> undo Context (editor_of (canvas_of 1 1 [white]))
       = Inr (Undefined, editor_of (canvas_of 1 1 [white]))
   \<and> redo Context (editor_of (canvas_of 1 1 [white]))
       = Inr (Undefined, editor_of (canvas_of 1 1 [white]))
   \<and> (\<exists>s'. undo Context
               (run idle_browser [MouseDown BRUSH \<lparr>offsetX = 0, offsetY = 0\<rparr>, MouseUp]
                  (fire idle_browser (Mount 1 1) initial_editor)) = Inr (Undefined, s'))
   \<and> (\<exists>s'. redo Context
               (run idle_browser [MouseDown BRUSH \<lparr>offsetX = 0, offsetY = 0\<rparr>, MouseUp]
                  (fire idle_browser (Mount 1 1) initial_editor)) = Inr (Undefined, s'))"
  using nothing_to_undo
    [of "editor_of (canvas_of 1 1 [white])" Context
        "[MouseDown BRUSH \<lparr>offsetX = 0, offsetY = 0\<rparr>, MouseUp]" idle_browser 1 1]
  by (simp add: editor_of_def)

text \<open>
  C5, as the claim has it, fails on a 1 by 1 white canvas with empty stacks: the value
  returned is not \<^verbatim>\<open>false\<close>. The handlers are declared \<^verbatim>\<open>() => void\<close> and end in a bare
  \<^verbatim>\<open>return\<close>; a successful call returns the same \<^verbatim>\<open>undefined\<close>.
\<close>

theorem undo_returns_no_boolean:
  "historyStack (editor_of (canvas_of 1 1 [white])) = []
   \<and> undo Context (editor_of (canvas_of 1 1 [white]))
       \<noteq> Inr (Boolean False, editor_of (canvas_of 1 1 [white]))
   \<and> redoStack (editor_of (canvas_of 1 1 [white])) = []
   \<and> redo Context (editor_of (canvas_of 1 1 [white]))
       \<noteq> Inr (Boolean False, editor_of (canvas_of 1 1 [white]))"
  by (simp add: undo_def redo_def editor_of_def)

section \<open>Rounding\<close>

text \<open>
  The exponent found by \<open>binade\<close> is the right one, so \<open>fl\<close> moves a positive number by at
  most half a unit in the last place: a relative error of \<open>2\<^sup>-\<^sup>5\<^sup>3\<close>.
\<close>

lemma bitlen_bounds:
  "0 < n \<Longrightarrow> 2 ^ (bitlen n - 1) \<le> n \<and> n < 2 ^ bitlen n"
proof (induction n rule: bitlen.induct)
  case (1 n)
  show ?case
  proof (cases "n div 2 = 0")
    case True
    with "1.prems" have "n = 1" by (simp add: div_eq_0_iff) 
    then show ?thesis by (simp add: bitlen.simps [of "Suc 0"] bitlen.simps [of 0])
  next
    case False
    with "1.IH" "1.prems" have IH: "2 ^ (bitlen (n div 2) - 1) \<le> n div 2" "n div 2 < 2 ^ bitlen (n div 2)"
      by simp_all
    have b: "bitlen n = Suc (bitlen (n div 2))"
      using "1.prems" by (subst bitlen.simps) simp
    have pos: "0 < bitlen (n div 2)"
      using False by (subst bitlen.simps) simp
    have "2 ^ (bitlen n - 1) = 2 * 2 ^ (bitlen (n div 2) - 1)"
      using pos b by (cases "bitlen (n div 2)") simp_all
    also have "\<dots> \<le> 2 * (n div 2)" using IH(1) by simp
    also have "\<dots> \<le> n" by simp
    finally have lo: "2 ^ (bitlen n - 1) \<le> n" .
    have "n < 2 * (n div 2) + 2" by presburger
    also have "\<dots> \<le> 2 * 2 ^ bitlen (n div 2)" using IH(2) by simp
    also have "\<dots> = 2 ^ bitlen n" by (simp add: b)
    finally show ?thesis using lo by simp
  qed
qed

lemma pow2_powi: "pow2 e = 2 powi e"
  by (simp add: pow2_def power_int_def inverse_eq_divide power_one_over)

lemma pow2_pos [simp]: "0 < pow2 e"
  by (simp add: pow2_powi)

lemma pow2_nonneg [simp]: "0 \<le> pow2 e"
  by (rule less_imp_le) (rule pow2_pos)

lemma pow2_nonzero [simp]: "pow2 e \<noteq> 0"
  by (simp add: pow2_powi)

lemma pow2_abs [simp]: "\<bar>pow2 e\<bar> = pow2 e"
  by (rule abs_of_pos) (rule pow2_pos)

lemma pow2_add: "pow2 (a + b) = pow2 a * pow2 b"
  by (simp add: pow2_powi power_int_add)

lemma pow2_Suc: "pow2 (e + 1) = 2 * pow2 e"
  by (simp add: pow2_powi power_int_add_1')

lemma pow2_nat: "pow2 (int n) = 2 ^ n"
  by (simp add: pow2_powi)

lemma pow2_neg: "pow2 (- e) = 1 / pow2 e"
  by (simp add: pow2_powi power_int_minus inverse_eq_divide)


lemma floor_bits:
  fixes y :: rat
  assumes "1 \<le> y"
  shows "pow2 (int (bitlen (nat \<lfloor>y\<rfloor>)) - 1) \<le> y \<and> y < pow2 (int (bitlen (nat \<lfloor>y\<rfloor>)))"
proof -
  define n where "n = nat \<lfloor>y\<rfloor>"
  define k where "k = bitlen n"
  from assms have fl1: "1 \<le> \<lfloor>y\<rfloor>" by simp
  then have n: "0 < n" and ny: "of_nat n = (of_int \<lfloor>y\<rfloor> :: rat)"
    by (simp_all add: n_def)
  from bitlen_bounds [OF n] have lo: "2 ^ (k - 1) \<le> n" and hi: "n < 2 ^ k"
    by (simp_all add: k_def)
  from hi n have k: "0 < k" by (cases k) simp_all
  then have "int k - 1 = int (k - 1)" by simp
  then have "pow2 (int k - 1) = 2 ^ (k - 1)" by (simp only: pow2_nat)
  also have "\<dots> = of_nat (2 ^ (k - 1))" by simp
  also have "\<dots> \<le> of_nat n" using lo by (simp only: of_nat_le_iff)
  also have "\<dots> \<le> y" using ny by simp
  finally have 1: "pow2 (int k - 1) \<le> y" .
  have "y < of_int \<lfloor>y\<rfloor> + 1" by linarith
  also have "\<dots> = of_nat (n + 1)" using ny by simp
  also have "\<dots> \<le> of_nat (2 ^ k)" using hi by (simp only: of_nat_le_iff) 
  also have "\<dots> = pow2 (int k)" by (simp add: pow2_nat)
  finally have "y < pow2 (int k)" .
  with 1 show ?thesis by (simp add: k_def n_def)
qed

lemma binade_bounds:
  assumes "0 < x"
  shows "pow2 (binade x) \<le> x \<and> x < pow2 (binade x + 1)"
proof (cases "1 \<le> x")
  case True
  with floor_bits [OF True] show ?thesis
    by (simp add: binade_def)
next
  case False
  define j where "j = int (bitlen (nat \<lfloor>1 / x\<rfloor>)) - 1"
  from False assms have "1 \<le> 1 / x" by simp
  from floor_bits [OF this] have lo: "pow2 j \<le> 1 / x" and hi: "1 / x < pow2 (j + 1)"
    by (simp_all add: j_def)
  from lo assms have up: "x * pow2 j \<le> 1"
    by (simp add: field_simps)
  from hi assms have down: "1 < x * pow2 (j + 1)"
    by (simp add: field_simps)
  show ?thesis
  proof (cases "x * pow2 j = 1")
    case True
    then have x: "x = pow2 (- j)"
      by (simp add: pow2_neg eq_divide_eq)
    have "binade x = - j"
      using False True by (simp add: binade_def j_def Let_def)
    moreover have "pow2 (- j + 1) = 2 * pow2 (- j)"
      by (rule pow2_Suc)
    ultimately show ?thesis
      using x assms by simp
  next
    case ne: False
    have b: "binade x = - j - 1"
      using False ne by (simp add: binade_def j_def Let_def)
    have "pow2 (- j - 1) = 1 / pow2 (j + 1)"
      using pow2_neg [of "j + 1"] by simp
    also have "\<dots> < x" using down by (simp add: field_simps)
    finally have 1: "pow2 (- j - 1) \<le> x" by simp
    from up ne have "x * pow2 j < 1" by simp
    then have "x < pow2 (- j)"
      by (simp add: pow2_neg field_simps)
    with 1 b show ?thesis by simp
  qed
qed

lemma round_even_error: "\<bar>of_int (round_even x) - x\<bar> \<le> 1 / 2"
proof -
  have "of_int \<lfloor>x\<rfloor> \<le> x" "x < of_int \<lfloor>x\<rfloor> + 1" by linarith+
  then show ?thesis
    by (auto simp add: round_even_def Let_def abs_le_iff)
qed

lemma fl_error:
  assumes "0 < x"
  shows "\<bar>fl x - x\<bar> \<le> x / 2 ^ 53"
proof -
  define e where "e = binade x"
  define m where "m = x * pow2 (52 - e)"
  from binade_bounds [OF assms] have lo: "pow2 e \<le> x" by (simp add: e_def)
  have flx: "fl x = of_int (round_even m) * pow2 (e - 52)"
    using assms by (simp add: fl_def Let_def e_def m_def)
  have "pow2 (52 - e) * pow2 (e - 52) = 1"
    using pow2_add [of "52 - e" "e - 52"] by (simp add: pow2_def)
  then have x: "x = m * pow2 (e - 52)"
    by (simp add: m_def mult.assoc)
  have "fl x - x = (of_int (round_even m) - m) * pow2 (e - 52)"
    by (subst (2) x) (simp add: flx algebra_simps)
  then have "\<bar>fl x - x\<bar> = \<bar>of_int (round_even m) - m\<bar> * pow2 (e - 52)"
    by (simp add: abs_mult)
  also have "\<dots> \<le> 1 / 2 * pow2 (e - 52)"
    using round_even_error [of m] by (intro mult_right_mono) simp_all
  also have "\<dots> = pow2 e / 2 ^ 53"
    using pow2_add [of e "- 53"] pow2_add [of "e - 53" 1] by (simp add: pow2_def)
  also have "\<dots> \<le> x / 2 ^ 53"
    using lo by (simp add: divide_right_mono)
  finally show ?thesis .
qed

lemma fl_bounds:
  assumes "0 < x"
  shows "x * (1 - ulp_half) \<le> fl x" and "fl x \<le> x * (1 + ulp_half)" and "0 < fl x"
proof -
  from fl_error [OF assms] have e: "\<bar>fl x - x\<bar> \<le> x * ulp_half"
    by (simp add: ulp_half_def)
  then show lo: "x * (1 - ulp_half) \<le> fl x" and "fl x \<le> x * (1 + ulp_half)"
    by (simp_all add: abs_le_iff algebra_simps)
  have "0 < x * (1 - ulp_half)"
    using assms by (simp add: ulp_half_def)
  with lo show "0 < fl x" by simp
qed

lemma js_mul_bounds:
  assumes "0 < a" "0 < b"
  shows "a * b * (1 - ulp_half) \<le> js_mul a b" and "js_mul a b \<le> a * b * (1 + ulp_half)"
    and "0 < js_mul a b"
  using fl_bounds [of "a * b"] assms by (simp_all add: js_mul_def)

lemma js_div_bounds:
  assumes "0 < a" "0 < b"
  shows "a / b * (1 - ulp_half) \<le> js_div a b" and "js_div a b \<le> a / b * (1 + ulp_half)"
    and "0 < js_div a b"
  using fl_bounds [of "a / b"] assms by (simp_all add: js_div_def)

lemma js_sub_bounds:
  assumes "b < a"
  shows "(a - b) * (1 - ulp_half) \<le> js_sub a b" and "js_sub a b \<le> (a - b) * (1 + ulp_half)"
    and "0 < js_sub a b"
  using fl_bounds [of "a - b"] assms by (simp_all add: js_sub_def)

text \<open>Half the canvas, rounded, divided by the image size, rounded: one axis of the scale.\<close>

lemma axis_scale_bounds:
  fixes c i :: rat
  assumes "0 < c" "0 < i"
  defines "s \<equiv> js_div (js_mul c (1 / 2)) i"
  shows "0 < s" and "i * s \<le> c / 2 * (1 + ulp_half)\<^sup>2" and "c / 2 * (1 - ulp_half)\<^sup>2 \<le> i * s"
proof -
  let ?a = "js_mul c (1 / 2)"
  have u: "0 < 1 - ulp_half" "0 < 1 + ulp_half" by (simp_all add: ulp_half_def)
  from js_mul_bounds [of c "1 / 2"] assms(1)
  have a: "0 < ?a" "?a \<le> c / 2 * (1 + ulp_half)" "c / 2 * (1 - ulp_half) \<le> ?a"
    by simp_all
  from js_div_bounds [OF a(1) assms(2)]
  have s: "0 < s" "s \<le> ?a / i * (1 + ulp_half)" "?a / i * (1 - ulp_half) \<le> s"
    by (simp_all add: s_def)
  show "0 < s" by fact
  have "i * s \<le> i * (?a / i * (1 + ulp_half))"
    using s(2) assms(2) by (intro mult_left_mono) simp_all
  also have "\<dots> = ?a * (1 + ulp_half)" using assms(2) by simp
  also have "\<dots> \<le> c / 2 * (1 + ulp_half) * (1 + ulp_half)"
    using a(2) u(2) by (intro mult_right_mono) simp_all
  finally show "i * s \<le> c / 2 * (1 + ulp_half)\<^sup>2"
    by (simp add: power2_eq_square mult.assoc)
  have "c / 2 * (1 - ulp_half) * (1 - ulp_half) \<le> ?a * (1 - ulp_half)"
    using a(3) u(1) by (intro mult_right_mono) simp_all
  also have "\<dots> = i * (?a / i * (1 - ulp_half))" using assms(2) by simp
  also have "\<dots> \<le> i * s"
    using s(3) assms(2) by (intro mult_left_mono) simp_all
  finally show "c / 2 * (1 - ulp_half)\<^sup>2 \<le> i * s"
    by (simp add: power2_eq_square mult.assoc)
qed


lemma ulp_facts:
  "0 < ulp_half" "0 < 1 - ulp_half" "0 < 1 + ulp_half"
  "(1 + ulp_half)\<^sup>2 * (1 + ulp_half) \<le> 1 + 1 / 2 ^ 51"
  "(1 + ulp_half)\<^sup>2 \<le> 1 + 1 / 2 ^ 51"
  "1 - 1 / 2 ^ 51 \<le> (1 - ulp_half)\<^sup>2"
  "1 + ulp_half \<le> (1 - ulp_half) * (1 + 1 / 2 ^ 51)"
  by (simp_all add: ulp_half_def power2_eq_square)

lemma drawn_size:
  fixes c i scale :: rat
  assumes "0 < c" "0 < i" "0 < scale" "scale \<le> js_div (js_mul c (1 / 2)) i"
  shows "0 < js_mul i scale" and "js_mul i scale \<le> c / 2 * (1 + 1 / 2 ^ 51)"
proof -
  from js_mul_bounds [OF assms(2,3)]
  have d: "0 < js_mul i scale" "js_mul i scale \<le> i * scale * (1 + ulp_half)"
    by simp_all
  show "0 < js_mul i scale" by fact
  have "i * scale \<le> i * js_div (js_mul c (1 / 2)) i"
    using assms(2,4) by (intro mult_left_mono) simp_all
  also have "\<dots> \<le> c / 2 * (1 + ulp_half)\<^sup>2"
    using assms(1,2) by (rule axis_scale_bounds)
  finally have "i * scale * (1 + ulp_half) \<le> c / 2 * (1 + ulp_half)\<^sup>2 * (1 + ulp_half)"
    using ulp_facts(3) by (intro mult_right_mono) simp_all
  also have "\<dots> = c / 2 * ((1 + ulp_half)\<^sup>2 * (1 + ulp_half))"
    by (simp add: mult.assoc)
  also have "\<dots> \<le> c / 2 * (1 + 1 / 2 ^ 51)"
    using assms(1) ulp_facts(4) by (intro mult_left_mono) simp_all
  finally show "js_mul i scale \<le> c / 2 * (1 + 1 / 2 ^ 51)"
    using d(2) by simp
qed

lemma centred:
  fixes c d :: rat
  assumes "0 < d" "d \<le> c / 2 * (1 + 1 / 2 ^ 51)" "0 < c"
  shows "\<bar>js_div (js_sub c d) 2 + d / 2 - c / 2\<bar> \<le> c / 2 ^ 52"
proof -
  let ?t = "js_sub c d" and ?x = "js_div (js_sub c d) 2"
  have "c / 2 * (1 + 1 / 2 ^ 51) < c" using assms(3) by simp
  with assms(2) have dc: "d < c" by simp
  from js_sub_bounds [OF dc]
  have t: "0 < ?t" "?t \<le> (c - d) * (1 + ulp_half)" "(c - d) * (1 - ulp_half) \<le> ?t"
    by simp_all
  from js_div_bounds [OF t(1), of 2]
  have x: "?x \<le> ?t / 2 * (1 + ulp_half)" "?t / 2 * (1 - ulp_half) \<le> ?x"
    by simp_all
  have "?x \<le> ?t / 2 * (1 + ulp_half)" by fact
  also have "\<dots> \<le> (c - d) * (1 + ulp_half) / 2 * (1 + ulp_half)"
    using t(2) ulp_facts(3) by (intro mult_right_mono divide_right_mono) simp_all
  also have "\<dots> = (c - d) / 2 * (1 + ulp_half)\<^sup>2"
    by (simp add: power2_eq_square)
  also have "\<dots> \<le> (c - d) / 2 * (1 + 1 / 2 ^ 51)"
    using dc ulp_facts(5) by (intro mult_left_mono) simp_all
  also have "\<dots> = (c - d) / 2 + (c - d) / 2 / 2 ^ 51"
    by (simp only: distrib_left mult_1_right times_divide_eq_right)
  finally have up: "?x - (c - d) / 2 \<le> (c - d) / 2 / 2 ^ 51"
    by linarith
  have "(c - d) / 2 - (c - d) / 2 / 2 ^ 51 = (c - d) / 2 * (1 - 1 / 2 ^ 51)"
    by (simp only: right_diff_distrib mult_1_right times_divide_eq_right)
  also have "\<dots> \<le> (c - d) / 2 * (1 - ulp_half)\<^sup>2"
    using dc ulp_facts(6) by (intro mult_left_mono) simp_all
  also have "\<dots> = (c - d) * (1 - ulp_half) / 2 * (1 - ulp_half)"
    by (simp add: power2_eq_square)
  also have "\<dots> \<le> ?t / 2 * (1 - ulp_half)"
    using t(3) ulp_facts(2) by (intro mult_right_mono divide_right_mono) simp_all
  also have "\<dots> \<le> ?x" by fact
  finally have down: "- ((c - d) / 2 / 2 ^ 51) \<le> ?x - (c - d) / 2"
    by linarith
  have "(c - d) / 2 / 2 ^ 51 \<le> c / 2 / 2 ^ 51"
    using assms(1) by (intro divide_right_mono) simp_all
  also have "\<dots> = c / 2 ^ 52" by simp
  finally have "(c - d) / 2 / 2 ^ 51 \<le> c / 2 ^ 52" .
  with up down have "\<bar>?x - (c - d) / 2\<bar> \<le> c / 2 ^ 52"
    by (simp only: abs_le_iff) linarith
  moreover have "?x + d / 2 - c / 2 = ?x - (c - d) / 2"
    by (simp only: diff_divide_distrib)
  ultimately show ?thesis by (simp only:)
qed

lemma aspect_kept:
  fixes i j scale :: rat
  assumes "0 < i" "0 < j" "0 < scale"
  shows "js_mul i scale * j \<le> js_mul j scale * i * (1 + 1 / 2 ^ 51)"
proof -
  from js_mul_bounds [OF assms(1,3)] have w: "js_mul i scale \<le> i * scale * (1 + ulp_half)"
    by simp
  from js_mul_bounds [OF assms(2,3)] have h: "j * scale * (1 - ulp_half) \<le> js_mul j scale"
    by simp
  have p: "0 \<le> i * j * scale" using assms by simp
  have "js_mul i scale * j \<le> i * scale * (1 + ulp_half) * j"
    using w assms(2) by (intro mult_right_mono) simp_all
  also have "\<dots> = i * j * scale * (1 + ulp_half)" by simp
  also have "\<dots> \<le> i * j * scale * ((1 - ulp_half) * (1 + 1 / 2 ^ 51))"
    using p ulp_facts(7) by (rule mult_left_mono [rotated])
  also have "\<dots> = j * scale * (1 - ulp_half) * (i * (1 + 1 / 2 ^ 51))" by simp
  also have "\<dots> \<le> js_mul j scale * (i * (1 + 1 / 2 ^ 51))"
    using h assms(1) by (intro mult_right_mono) simp_all
  finally show ?thesis by (simp add: mult.assoc)
qed


lemma axis_scale_close:
  fixes c i :: rat
  assumes "0 < c" "0 < i"
  shows "c / (2 * i) * (1 - 1 / 2 ^ 51) \<le> js_div (js_mul c (1 / 2)) i"
    and "js_div (js_mul c (1 / 2)) i \<le> c / (2 * i) * (1 + 1 / 2 ^ 51)"
proof -
  let ?s = "js_div (js_mul c (1 / 2)) i"
  define lo hi :: rat where "lo = 1 - 1 / 2 ^ 51" and "hi = 1 + 1 / 2 ^ 51"
  note b = axis_scale_bounds [OF assms]
  have "c / 2 * lo \<le> c / 2 * (1 - ulp_half)\<^sup>2"
    unfolding lo_def using assms(1) ulp_facts(6) by (intro mult_left_mono) simp_all
  also have "\<dots> \<le> i * ?s" by (rule b(3))
  finally have "c / 2 * lo / i \<le> ?s"
    using assms(2) by (simp add: pos_divide_le_eq mult.commute)
  moreover have "c / 2 * lo / i = c / (2 * i) * lo"
    by simp
  ultimately show "c / (2 * i) * (1 - 1 / 2 ^ 51) \<le> ?s"
    unfolding lo_def by (simp only:)
  have "i * ?s \<le> c / 2 * (1 + ulp_half)\<^sup>2" by (rule b(2))
  also have "\<dots> \<le> c / 2 * hi"
    unfolding hi_def using assms(1) ulp_facts(5) by (intro mult_left_mono) simp_all
  finally have "?s \<le> c / 2 * hi / i"
    using assms(2) by (simp add: pos_le_divide_eq mult.commute)
  moreover have "c / 2 * hi / i = c / (2 * i) * hi"
    by simp
  ultimately show "?s \<le> c / (2 * i) * (1 + 1 / 2 ^ 51)"
    unfolding hi_def by (simp only:)
qed

lemma min_close:
  fixes a b a' b' :: rat
  assumes "a * (1 - 1 / 2 ^ 51) \<le> a'" "a' \<le> a * (1 + 1 / 2 ^ 51)"
    and "b * (1 - 1 / 2 ^ 51) \<le> b'" "b' \<le> b * (1 + 1 / 2 ^ 51)"
  shows "\<bar>min a' b' - min a b\<bar> \<le> min a b / 2 ^ 51"
  using assms unfolding min_def abs_le_iff by (simp split: if_splits)

section \<open>Placing an added image\<close>

text \<open>
  C6, as the code has it. For a canvas and an image of positive dimensions, \<open>addImage\<close>
  draws into the rectangle \<open>(x, y, w, h)\<close> with one scale factor for both axes, the minimum
  of \<open>(W * 0.5) / iw\<close> and \<open>(H * 0.5) / ih\<close> in double arithmetic, which is within a relative
  \<open>2\<^sup>-\<^sup>5\<^sup>1\<close> of the exact minimum. The width and the height are at most half the canvas up
  to that rounding, the aspect ratio is that of the image up to that rounding, and the
  rectangle is centred up to \<open>W / 2\<^sup>5\<^sup>2\<close> and \<open>H / 2\<^sup>5\<^sup>2\<close>.
\<close>

theorem centered_scaled_placement:
  fixes cw ch iw ih :: nat
  assumes "0 < cw" "0 < ch" "0 < iw" "0 < ih"
  shows "\<exists>scale x y w h.
           addImage_placement cw ch iw ih = (x, y, w, h)
         \<and> scale = min (js_div (js_mul (of_nat cw) (1 / 2)) (of_nat iw))
                       (js_div (js_mul (of_nat ch) (1 / 2)) (of_nat ih))
         \<and> w = js_mul (of_nat iw) scale \<and> h = js_mul (of_nat ih) scale
         \<and> \<bar>scale - min (of_nat cw / (2 * of_nat iw)) (of_nat ch / (2 * of_nat ih))\<bar>
             \<le> min (of_nat cw / (2 * of_nat iw)) (of_nat ch / (2 * of_nat ih)) / 2 ^ 51
         \<and> 0 < w \<and> w \<le> of_nat cw / 2 * (1 + 1 / 2 ^ 51)
         \<and> 0 < h \<and> h \<le> of_nat ch / 2 * (1 + 1 / 2 ^ 51)
         \<and> w * of_nat ih \<le> h * of_nat iw * (1 + 1 / 2 ^ 51)
         \<and> h * of_nat iw \<le> w * of_nat ih * (1 + 1 / 2 ^ 51)
         \<and> \<bar>x + w / 2 - of_nat cw / 2\<bar> \<le> of_nat cw / 2 ^ 52
         \<and> \<bar>y + h / 2 - of_nat ch / 2\<bar> \<le> of_nat ch / 2 ^ 52"
proof -
  let ?W = "of_nat cw :: rat" and ?H = "of_nat ch :: rat"
  let ?iw = "of_nat iw :: rat" and ?ih = "of_nat ih :: rat"
  let ?sx = "js_div (js_mul ?W (1 / 2)) ?iw" and ?sy = "js_div (js_mul ?H (1 / 2)) ?ih"
  define scale where "scale = min ?sx ?sy"
  define w where "w = js_mul ?iw scale"
  define h where "h = js_mul ?ih scale"
  define x where "x = js_div (js_sub ?W w) 2"
  define y where "y = js_div (js_sub ?H h) 2"
  from assms have pos: "0 < ?W" "0 < ?H" "0 < ?iw" "0 < ?ih" by simp_all
  have place: "addImage_placement cw ch iw ih = (x, y, w, h)"
    by (simp add: addImage_placement_def Let_def scale_def w_def h_def x_def y_def)
  have "0 < ?sx" "0 < ?sy"
    using pos by (simp_all add: axis_scale_bounds)
  then have scale: "0 < scale" "scale \<le> ?sx" "scale \<le> ?sy"
    by (simp_all add: scale_def)
  have close: "\<bar>scale - min (?W / (2 * ?iw)) (?H / (2 * ?ih))\<bar>
                 \<le> min (?W / (2 * ?iw)) (?H / (2 * ?ih)) / 2 ^ 51"
    unfolding scale_def
    using axis_scale_close [OF pos(1,3)] axis_scale_close [OF pos(2,4)]
    by (intro min_close)
  have w: "0 < w" "w \<le> ?W / 2 * (1 + 1 / 2 ^ 51)"
    unfolding w_def using pos(1,3) scale(1,2) by (rule drawn_size)+
  have h: "0 < h" "h \<le> ?H / 2 * (1 + 1 / 2 ^ 51)"
    unfolding h_def using pos(2,4) scale(1,3) by (rule drawn_size)+
  have a1: "w * ?ih \<le> h * ?iw * (1 + 1 / 2 ^ 51)"
    unfolding w_def h_def using pos(3,4) scale(1) by (rule aspect_kept)
  have a2: "h * ?iw \<le> w * ?ih * (1 + 1 / 2 ^ 51)"
    unfolding w_def h_def using pos(4,3) scale(1) by (rule aspect_kept)
  have cx: "\<bar>x + w / 2 - ?W / 2\<bar> \<le> ?W / 2 ^ 52"
    unfolding x_def using w pos(1) by (rule centred)
  have cy: "\<bar>y + h / 2 - ?H / 2\<bar> \<le> ?H / 2 ^ 52"
    unfolding y_def using h pos(2) by (rule centred)
  from place close w h a1 a2 cx cy show ?thesis
    unfolding w_def [symmetric] h_def [symmetric] scale_def [symmetric]
    by (intro exI [of _ scale] exI [of _ x] exI [of _ y] exI [of _ w] exI [of _ h])
       (simp only: w_def h_def scale_def simp_thms)
qed

theorem centered_scaled_placement_witness:
  "(0::nat) < 800 \<and> (0::nat) < 600 \<and> (0::nat) < 73
   \<and> (\<exists>scale x y w h.
           addImage_placement 800 600 73 73 = (x, y, w, h)
         \<and> scale = min (js_div (js_mul 800 (1 / 2)) 73) (js_div (js_mul 600 (1 / 2)) 73)
         \<and> w = js_mul 73 scale \<and> h = js_mul 73 scale
         \<and> \<bar>scale - min (800 / (2 * 73)) (600 / (2 * 73))\<bar>
             \<le> min (800 / (2 * 73)) (600 / (2 * 73)) / 2 ^ 51
         \<and> 0 < w \<and> w \<le> 800 / 2 * (1 + 1 / 2 ^ 51)
         \<and> 0 < h \<and> h \<le> 600 / 2 * (1 + 1 / 2 ^ 51)
         \<and> w * 73 \<le> h * 73 * (1 + 1 / 2 ^ 51)
         \<and> h * 73 \<le> w * 73 * (1 + 1 / 2 ^ 51)
         \<and> \<bar>x + w / 2 - 800 / 2\<bar> \<le> 800 / 2 ^ 52
         \<and> \<bar>y + h / 2 - 600 / 2\<bar> \<le> 600 / 2 ^ 52)"
  using centered_scaled_placement [of 800 600 73 73] by simp

text \<open>Evaluating the arithmetic on numerals.\<close>

lemma bitlen_numeral:
  "bitlen 0 = 0"
  "bitlen (Suc 0) = 1"
  "bitlen (numeral Num.One) = 1"
  "bitlen (numeral (Num.Bit0 k)) = Suc (bitlen (numeral k))"
  "bitlen (numeral (Num.Bit1 k)) = Suc (bitlen (numeral k))"
proof -
  show "bitlen 0 = 0" by (simp add: bitlen.simps)
  show "bitlen (Suc 0) = 1" by (simp add: bitlen.simps [of "Suc 0"] bitlen.simps [of 0])
  then show "bitlen (numeral Num.One) = 1" by simp
  have "numeral (Num.Bit0 k) div (2::nat) = numeral k" by simp
  then show "bitlen (numeral (Num.Bit0 k)) = Suc (bitlen (numeral k))"
    by (subst bitlen.simps) simp
  have "numeral (Num.Bit1 k) div (2::nat) = numeral k" by simp
  then show "bitlen (numeral (Num.Bit1 k)) = Suc (bitlen (numeral k))"
    by (subst bitlen.simps) simp
qed

lemma floor_rat_numeral:
  "\<lfloor>numeral a / numeral b :: rat\<rfloor> = numeral a div numeral b"
  by (metis floor_divide_of_int_eq of_int_numeral)

lemmas fl_eval =
  fl_def binade_def round_even_def pow2_def Let_def bitlen_numeral floor_rat_numeral

lemma half_of_800_600:
  "js_mul 800 (1 / 2) = 400" "js_mul 600 (1 / 2) = 300"
  by (simp_all add: js_mul_def fl_eval)

lemma scale_of_73:
  "js_div 400 73 = 6169314558041775 / 1125899906842624"
  "js_div 300 73 = 1156746479632833 / 281474976710656"
  by (simp_all add: js_div_def fl_eval)

lemma size_of_73:
  "js_mul 73 (1156746479632833 / 281474976710656) = 5277655813324801 / 17592186044416"
  by (simp add: js_mul_def fl_eval)

lemma margin_of_73:
  "js_sub 800 (5277655813324801 / 17592186044416) = 8796093022207999 / 17592186044416"
  "js_sub 600 (5277655813324801 / 17592186044416) = 5277655813324799 / 17592186044416"
  by (simp_all add: js_sub_def fl_eval)

lemma origin_of_73:
  "js_div (8796093022207999 / 17592186044416) 2 = 8796093022207999 / 35184372088832"
  "js_div (5277655813324799 / 17592186044416) 2 = 5277655813324799 / 35184372088832"
  by (simp_all add: js_div_def fl_eval)

text \<open>
  C6, as the claim has it, fails for a 73 by 73 image on an 800 by 600 canvas: the drawn
  height is \<open>300 + 2\<^sup>-\<^sup>4\<^sup>4\<close>, more than half of 600.
\<close>

theorem drawn_height_exceeds_half:
  "addImage_placement 800 600 73 73 =
     (8796093022207999 / 35184372088832, 5277655813324799 / 35184372088832,
      5277655813324801 / 17592186044416, 5277655813324801 / 17592186044416)
   \<and> (600 / 2 :: rat) < 5277655813324801 / 17592186044416"
  by (simp add: addImage_placement_def half_of_800_600 scale_of_73 size_of_73
        margin_of_73 origin_of_73 Let_def)

end
